theory Spec2Isabelle
  imports Complex_Main "HOL-Library.Sublist" "HOL-Library.Word" "HOL-Library.Log_Nat"
begin

unbundle bit_operations_syntax

section \<open>Python string primitives used by the translator\<close>

text \<open>
  Python \<open>str\<close> values are modelled as \<^typ>\<open>string\<close>, a character being the code point
  of that number: the strings of the model are the Python strings of code points below
  256. The case mappings and the whitespace test below are Python's on these code
  points.
\<close>

text \<open>\<open>s in key\<close>: the substring test, scanning the start positions from the left.\<close>

fun contains :: "string \<Rightarrow> string \<Rightarrow> bool" where
  "contains s [] = (s = [])"
| "contains s (c # cs) = (prefix s (c # cs) \<or> contains s cs)"

text \<open>\<open>key.startswith(s)\<close> and \<open>key.endswith(s)\<close>.\<close>

definition startswith :: "string \<Rightarrow> string \<Rightarrow> bool" where
  "startswith key s = prefix s key"

definition endswith :: "string \<Rightarrow> string \<Rightarrow> bool" where
  "endswith key s = prefix (rev s) (rev key)"

text \<open>
  The capital letters of the code points \<open>0xC0\<close> to \<open>0xDE\<close> (all but the multiplication
  sign \<open>0xD7\<close>) and their small letters, 32 places further on.
\<close>

definition latin1_capitals :: string where
  "latin1_capitals =
     [CHR 0xC0, CHR 0xC1, CHR 0xC2, CHR 0xC3, CHR 0xC4, CHR 0xC5, CHR 0xC6, CHR 0xC7,
      CHR 0xC8, CHR 0xC9, CHR 0xCA, CHR 0xCB, CHR 0xCC, CHR 0xCD, CHR 0xCE, CHR 0xCF,
      CHR 0xD0, CHR 0xD1, CHR 0xD2, CHR 0xD3, CHR 0xD4, CHR 0xD5, CHR 0xD6, CHR 0xD8,
      CHR 0xD9, CHR 0xDA, CHR 0xDB, CHR 0xDC, CHR 0xDD, CHR 0xDE]"

definition latin1_smalls :: string where
  "latin1_smalls =
     [CHR 0xE0, CHR 0xE1, CHR 0xE2, CHR 0xE3, CHR 0xE4, CHR 0xE5, CHR 0xE6, CHR 0xE7,
      CHR 0xE8, CHR 0xE9, CHR 0xEA, CHR 0xEB, CHR 0xEC, CHR 0xED, CHR 0xEE, CHR 0xEF,
      CHR 0xF0, CHR 0xF1, CHR 0xF2, CHR 0xF3, CHR 0xF4, CHR 0xF5, CHR 0xF6, CHR 0xF8,
      CHR 0xF9, CHR 0xFA, CHR 0xFB, CHR 0xFC, CHR 0xFD, CHR 0xFE]"

definition lower_char :: "char \<Rightarrow> char" where
  "lower_char c =
     (case map_of (zip (''ABCDEFGHIJKLMNOPQRSTUVWXYZ'' @ latin1_capitals)
                       (''abcdefghijklmnopqrstuvwxyz'' @ latin1_smalls)) c of
        Some d \<Rightarrow> d
      | None \<Rightarrow> c)"

text \<open>
  The uppercase of one character is a string: that of the sharp s (\<open>0xDF\<close>) is \<open>SS\<close>.
  The capitals of the micro sign (\<open>0xB5\<close>) and of the y with diaeresis (\<open>0xFF\<close>) are
  code points above 255, which \<^typ>\<open>char\<close> does not have: these two characters are
  left as they are.
\<close>

definition upper_chars :: "char \<Rightarrow> string" where
  "upper_chars c =
     (if c = CHR 0xDF then ''SS''
      else (case map_of (zip (''abcdefghijklmnopqrstuvwxyz'' @ latin1_smalls)
                             (''ABCDEFGHIJKLMNOPQRSTUVWXYZ'' @ latin1_capitals)) c of
              Some d \<Rightarrow> [d]
            | None \<Rightarrow> [c]))"

text \<open>The titlecase of one character: its uppercase, but \<open>Ss\<close> for the sharp s.\<close>

definition title_chars :: "char \<Rightarrow> string" where
  "title_chars c = (if c = CHR 0xDF then ''Ss'' else upper_chars c)"

text \<open>The character classes \<open>[a-z]\<close> and \<open>[A-Z]\<close> of a regular expression.\<close>

definition is_lower :: "char \<Rightarrow> bool" where
  "is_lower c = (c \<in> set ''abcdefghijklmnopqrstuvwxyz'')"

definition is_upper :: "char \<Rightarrow> bool" where
  "is_upper c = (c \<in> set ''ABCDEFGHIJKLMNOPQRSTUVWXYZ'')"

definition lower :: "string \<Rightarrow> string" where
  "lower s = map lower_char s"

definition upper :: "string \<Rightarrow> string" where
  "upper s = concat (map upper_chars s)"

text \<open>\<open>word.capitalize()\<close>: first character in titlecase, the others lower-cased.\<close>

fun capitalize :: "string \<Rightarrow> string" where
  "capitalize [] = []"
| "capitalize (c # cs) = title_chars c @ lower cs"

text \<open>
  The characters Python's \<open>str.isspace\<close> accepts: tab, line feed, vertical tab, form
  feed, carriage return, the four separators \<open>0x1C\<close> to \<open>0x1F\<close>, the space, the next
  line control \<open>0x85\<close> and the no-break space \<open>0xA0\<close>.
\<close>

definition is_space :: "char \<Rightarrow> bool" where
  "is_space c =
     (c \<in> set [CHR 0x09, CHR 0x0A, CHR 0x0B, CHR 0x0C, CHR 0x0D,
                CHR 0x1C, CHR 0x1D, CHR 0x1E, CHR 0x1F, CHR 0x20, CHR 0x85, CHR 0xA0])"

text \<open>\<open>s.strip()\<close>: whitespace removed at both ends.\<close>

definition strip :: "string \<Rightarrow> string" where
  "strip s = rev (dropWhile is_space (rev (dropWhile is_space s)))"

text \<open>\<open>s.split()\<close>: the maximal runs of characters that are not whitespace.\<close>

fun split_ws :: "string \<Rightarrow> string \<Rightarrow> string list" where
  "split_ws cur [] = (if cur = [] then [] else [cur])"
| "split_ws cur (c # cs) =
     (if is_space c then (if cur = [] then split_ws [] cs else cur # split_ws [] cs)
      else split_ws (cur @ [c]) cs)"

definition split :: "string \<Rightarrow> string list" where
  "split s = split_ws [] s"

text \<open>\<open>sep.join(parts)\<close>.\<close>

fun join :: "string \<Rightarrow> string list \<Rightarrow> string" where
  "join sep [] = []"
| "join sep [p] = p"
| "join sep (p # q # ps) = p @ sep @ join sep (q # ps)"

text \<open>\<open>s.replace(a, b)\<close> for a single character \<open>a\<close>.\<close>

definition replace_char :: "char \<Rightarrow> char \<Rightarrow> string \<Rightarrow> string" where
  "replace_char a b s = map (\<lambda>c. if c = a then b else c) s"

text \<open>
  \<open>re.search(pattern, key)\<close>: the match of the leftmost start position at which the
  pattern matches; the matcher \<open>m\<close> is the pattern anchored at the start of its argument.
\<close>

fun re_search :: "(string \<Rightarrow> 'a option) \<Rightarrow> string \<Rightarrow> 'a option" where
  "re_search m [] = m []"
| "re_search m (c # cs) =
     (case m (c # cs) of Some r \<Rightarrow> Some r | None \<Rightarrow> re_search m cs)"

section \<open>Structure validation (\<open>localization_parser.py\<close>)\<close>

text \<open>
  What \<open>json.load\<close> returns. An object is the Python \<open>dict\<close>: its entries in insertion
  order, every key a string.
\<close>

datatype json =
    JNull
  | JBool bool
  | JNumber rat
  | JString string
  | JArray "json list"
  | JObject "(string \<times> json) list"

text \<open>
  The outcome of opening and parsing the file: \<open>json.JSONDecodeError\<close> with its message,
  any other exception with its message, or the parsed value.
\<close>

datatype file_read =
    InvalidJSON string
  | ReadFailed string
  | Loaded json

fun is_str :: "json \<Rightarrow> bool" where
  "is_str (JString s) = True"
| "is_str v = False"

definition has_root_marker :: "string \<Rightarrow> bool" where
  "has_root_marker key =
     (contains '''dialog('' key \<or> contains '''topic('' key \<or> contains '''globalVariable('' key)"

definition value_error :: "string \<Rightarrow> string" where
  "value_error key = ''Value must be string for key: '' @ key"

definition format_error :: "string \<Rightarrow> string" where
  "format_error key = ''Key doesn't match expected format: '' @ key"

definition truncation_marker :: string where
  "truncation_marker = ''... (showing first 10 errors)''"

text \<open>
  The loop over \<open>data.items()\<close>, with the list \<open>errors\<close> it appends to. A key of a
  loaded JSON object is always a string, so the branch \<open>Key must be string\<close> is never
  taken.
\<close>

fun check_entries :: "(string \<times> json) list \<Rightarrow> string list \<Rightarrow> string list" where
  "check_entries [] errors = errors"
| "check_entries ((key, v) # rest) errors =
     (let errors = (if \<not> is_str v then errors @ [value_error key] else errors);
          errors = (if \<not> has_root_marker key then errors @ [format_error key] else errors)
      in check_entries rest errors)"

definition cap_errors :: "string list \<Rightarrow> string list" where
  "cap_errors errors =
     (if length errors > 10 then take 10 errors @ [truncation_marker] else errors)"

fun validate_structure :: "file_read \<Rightarrow> bool \<times> string list" where
  "validate_structure (InvalidJSON e) = (False, [''Invalid JSON format: '' @ e])"
| "validate_structure (ReadFailed e) = (False, [''Error reading file: '' @ e])"
| "validate_structure (Loaded (JObject items)) =
     (let errors = cap_errors (check_entries items [])
      in (length errors = 0, errors))"
| "validate_structure (Loaded v) = (False, [''File must contain a JSON object''])"

section \<open>Regular expressions of the parser\<close>

text \<open>
  The patterns of the program are sequences of five kinds of items: literal text, a
  character class under \<open>*\<close> or under \<open>+\<close>, a capturing group holding a character
  class under \<open>+\<close>, and a capturing group of literal alternatives. No pattern has more
  than one group.
\<close>

datatype regex_item =
    Lit string
  | Star "char \<Rightarrow> bool"
  | Plus "char \<Rightarrow> bool"
  | GroupPlus "char \<Rightarrow> bool"
  | GroupAlt "string list"

text \<open>
  Greedy repetition with backtracking: \<open>try_down f lo n\<close> tries the continuation \<open>f\<close>
  on the repetition counts \<open>n\<close>, \<open>n - 1\<close>, down to \<open>lo\<close>, and keeps the first success.
\<close>

fun try_down :: "(nat \<Rightarrow> 'a option) \<Rightarrow> nat \<Rightarrow> nat \<Rightarrow> 'a option" where
  "try_down f lo 0 = (if lo = 0 then f 0 else None)"
| "try_down f lo (Suc n) =
     (if Suc n < lo then None
      else (case f (Suc n) of Some r \<Rightarrow> Some r | None \<Rightarrow> try_down f lo n))"

fun first_alt :: "'a option list \<Rightarrow> 'a option" where
  "first_alt [] = None"
| "first_alt (Some r # rs) = Some r"
| "first_alt (None # rs) = first_alt rs"

text \<open>
  \<open>re_match items s g\<close> matches the pattern at the start of \<open>s\<close>; \<open>g\<close> is the text of
  the group so far. A match gives the text of the group and the rest of \<open>s\<close> after
  the match.
\<close>

fun re_match :: "regex_item list \<Rightarrow> string \<Rightarrow> string \<Rightarrow> (string \<times> string) option" where
  "re_match [] s g = Some (g, s)"
| "re_match (Lit l # items) s g =
     (if prefix l s then re_match items (drop (length l) s) g else None)"
| "re_match (Star p # items) s g =
     try_down (\<lambda>n. re_match items (drop n s) g) 0 (length (takeWhile p s))"
| "re_match (Plus p # items) s g =
     try_down (\<lambda>n. re_match items (drop n s) g) 1 (length (takeWhile p s))"
| "re_match (GroupPlus p # items) s g =
     try_down (\<lambda>n. re_match items (drop n s) (take n s)) 1 (length (takeWhile p s))"
| "re_match (GroupAlt alts # items) s g =
     first_alt (map (\<lambda>a. if prefix a s then re_match items (drop (length a) s) a else None) alts)"

text \<open>\<open>re.search(pattern, key)\<close> followed by \<open>match.group(1)\<close>.\<close>

definition search_group :: "regex_item list \<Rightarrow> string \<Rightarrow> string option" where
  "search_group pattern key = re_search (\<lambda>s. map_option fst (re_match pattern s [])) key"

text \<open>
  \<open>re.findall(pattern, text)\<close> for a pattern that never matches the empty string, as is
  the one pattern it is used with: the matches from left to right, each search starting
  where the last match ended.
\<close>

function findall :: "regex_item list \<Rightarrow> string \<Rightarrow> string list" where
  "findall pattern [] = []"
| "findall pattern (c # cs) =
     (case re_match pattern (c # cs) [] of
        Some (g, rest) \<Rightarrow>
          (if length rest \<le> length cs
           then take (Suc (length cs) - length rest) (c # cs) # findall pattern rest
           else findall pattern cs)
      | None \<Rightarrow> findall pattern cs)"
  by pat_completeness auto
termination
  by (relation "measure (\<lambda>(pattern, s). length s)") auto

section \<open>Key classification (\<open>localization_parser.py\<close>)\<close>

text \<open>The character classes \<open>[^'\.]\<close>, \<open>[^.]\<close> and \<open>[^)]\<close>.\<close>

definition not_quote_dot :: "char \<Rightarrow> bool" where
  "not_quote_dot c = (c \<noteq> CHR 0x27 \<and> c \<noteq> CHR ''.'')"

definition not_dot :: "char \<Rightarrow> bool" where
  "not_dot c = (c \<noteq> CHR ''.'')"

definition not_rparen :: "char \<Rightarrow> bool" where
  "not_rparen c = (c \<noteq> CHR '')'')"

definition topic_patterns :: "regex_item list list" where
  "topic_patterns =
     [[Lit ''topic.'', GroupPlus not_quote_dot],
      [Lit ''dialog('', Star not_dot, Lit ''.topic.'', GroupPlus not_quote_dot, Lit '')''],
      [Lit ''globalVariable('', Star not_dot, Lit ''.component.'', GroupPlus not_rparen,
       Lit '')'']]"

definition context_patterns :: "(string \<times> regex_item list) list" where
  "context_patterns =
     [(''action_type'', [Lit ''action('', GroupPlus not_rparen, Lit '')'']),
      (''trigger'', [Lit ''trigger('', GroupPlus not_rparen, Lit '')'']),
      (''component'', [Lit ''.'', GroupAlt [''Card'', ''Activity'', ''Prompt'', ''Entity''], Lit ''.'']),
      (''ui_element'', [Lit ''.'', GroupAlt [''text'', ''title'', ''DisplayName'']]),
      (''intent'', [Lit ''Intent.'', GroupAlt [''DisplayName'', ''TriggerQueries'']])]"

text \<open>\<open>re.sub(r'([a-z])([A-Z])', r'\1 \2', topic)\<close>.\<close>

fun camel_split :: "string \<Rightarrow> string" where
  "camel_split (a # b # cs) =
     (if is_lower a \<and> is_upper b then a # CHR '' '' # b # camel_split cs
      else a # camel_split (b # cs))"
| "camel_split cs = cs"

definition format_word :: "string \<Rightarrow> string" where
  "format_word word =
     (if lower word \<in> set [''copilot'', ''ai'', ''ui'', ''api''] then upper word
      else if length word > 1 then capitalize word
      else upper word)"

definition format_topic_name :: "string \<Rightarrow> string" where
  "format_topic_name name = join '' '' (map format_word (split (camel_split name)))"

text \<open>The loop of \<open>extract_topic\<close> over the patterns: the first pattern that matches.\<close>

fun first_topic_match :: "regex_item list list \<Rightarrow> string \<Rightarrow> string option" where
  "first_topic_match [] key = None"
| "first_topic_match (pattern # rest) key =
     (case search_group pattern key of
        Some name \<Rightarrow> Some name
      | None \<Rightarrow> first_topic_match rest key)"

definition clean_topic :: "string \<Rightarrow> string" where
  "clean_topic name = replace_char (CHR ''-'') (CHR '' '') (replace_char (CHR ''_'') (CHR '' '') name)"

definition extract_topic :: "string \<Rightarrow> string" where
  "extract_topic key =
     (case first_topic_match topic_patterns key of
        Some name \<Rightarrow> format_topic_name (clean_topic name)
      | None \<Rightarrow>
          if contains '''globalVariable('' key then ''Global Variables''
          else ''Unknown Topic'')"

text \<open>The context dictionary, in the insertion order of the patterns.\<close>

fun extract_context_loop :: "(string \<times> regex_item list) list \<Rightarrow> string \<Rightarrow> (string \<times> string) list" where
  "extract_context_loop [] key = []"
| "extract_context_loop ((context_type, pattern) # rest) key =
     (case search_group pattern key of
        Some g \<Rightarrow> (context_type, g) # extract_context_loop rest key
      | None \<Rightarrow> extract_context_loop rest key)"

definition extract_context :: "string \<Rightarrow> (string \<times> string) list" where
  "extract_context key = extract_context_loop context_patterns key"

definition components :: "string list" where
  "components = [''Card'', ''Activity'', ''Prompt'', ''Entity'', ''Intent'', ''Dialog'']"

fun first_component :: "string list \<Rightarrow> string \<Rightarrow> string option" where
  "first_component [] key = None"
| "first_component (component # rest) key =
     (if contains (''.'' @ component @ ''.'') key then Some component
      else first_component rest key)"

definition extract_ui_component :: "string \<Rightarrow> string" where
  "extract_ui_component key =
     (case first_component components key of
        Some component \<Rightarrow> component
      | None \<Rightarrow>
          if contains '''globalVariable('' key then ''GlobalVariable''
          else
            let lowered = lower key in
            if contains ''knowledgesourcecomponent'' lowered
               \<or> contains ''knowledge_source_component'' lowered
            then ''KnowledgeSourceComponent''
            else if contains ''.knowledgebase.'' lowered \<or> contains ''knowledgebase('' lowered
               \<or> contains ''.knowledgesource.'' lowered
            then ''KnowledgeSource''
            else if endswith key ''.DisplayName'' \<and> contains '''dialog('' key
               \<and> \<not> contains ''.Entity.'' key \<and> \<not> contains ''.Card.'' key
               \<and> \<not> contains ''.Activity.'' key \<and> \<not> contains ''.Prompt.'' key
            then ''DialogDisplayName''
            else ''Unknown'')"

definition elements :: "string list" where
  "elements = [''text'', ''title'', ''DisplayName'', ''TriggerQueries'', ''Description'']"

fun first_element :: "string list \<Rightarrow> string \<Rightarrow> string option" where
  "first_element [] key = None"
| "first_element (element # rest) key =
     (if endswith key (''.'' @ element) \<or> contains (''.'' @ element @ ''['') key
      then Some element
      else first_element rest key)"

definition extract_element_type :: "string \<Rightarrow> string" where
  "extract_element_type key =
     (case first_element elements key of Some element \<Rightarrow> element | None \<Rightarrow> ''text'')"

definition action_part :: "string \<Rightarrow> string" where
  "action_part action =
     (if startswith action ''question_'' then ''Type: Question''
      else if startswith action ''sendActivity_'' then ''Type: Response''
      else if startswith action ''sendMessage_'' then ''Type: Message''
      else ''Type: '' @ action)"

definition generate_description :: "string \<Rightarrow> string" where
  "generate_description key =
     (let parts = [];
          t = extract_topic key;
          parts = (if t \<noteq> ''Unknown Topic'' then parts @ [''Topic: '' @ t] else parts);
          component = extract_ui_component key;
          parts = (if component \<noteq> ''Unknown'' then parts @ [''Component: '' @ component]
                   else parts);
          element = extract_element_type key;
          parts = (if element \<noteq> ''text'' then parts @ [''Element: '' @ element] else parts);
          parts = (case map_of (extract_context key) ''action_type'' of
                     Some action \<Rightarrow> parts @ [action_part action]
                   | None \<Rightarrow> parts);
          parts = (if parts = [] then [''General localization entry''] else parts)
      in join '' | '' parts)"

text \<open>The dictionary \<open>parse_entry\<close> returns.\<close>

record entry =
  entry_text :: string
  topic :: string
  entry_context :: "(string \<times> string) list"
  ui_component :: string
  element_type :: string
  description :: string

definition parse_entry :: "string \<Rightarrow> string \<Rightarrow> entry" where
  "parse_entry key v =
     \<lparr> entry_text = v,
       topic = extract_topic key,
       entry_context = extract_context key,
       ui_component = extract_ui_component key,
       element_type = extract_element_type key,
       description = generate_description key \<rparr>"

text \<open>
  A Python \<open>dict\<close> as the list of its items in insertion order; \<open>d[key] = v\<close> replaces
  the value of a key that is present, in place, and appends a new key.
\<close>

fun dict_set :: "('k \<times> 'v) list \<Rightarrow> 'k \<Rightarrow> 'v \<Rightarrow> ('k \<times> 'v) list" where
  "dict_set [] key v = [(key, v)]"
| "dict_set ((k, w) # d) key v =
     (if k = key then (k, v) # d else (k, w) # dict_set d key v)"

fun load_loop :: "(string \<times> string) list \<Rightarrow> (string \<times> entry) list \<Rightarrow> (string \<times> entry) list" where
  "load_loop [] parsed_data = parsed_data"
| "load_loop ((key, v) # rest) parsed_data =
     load_loop rest (dict_set parsed_data key (parse_entry key v))"

text \<open>\<open>load_file\<close>, from the items of the loaded JSON object.\<close>

definition load_file :: "(string \<times> string) list \<Rightarrow> (string \<times> entry) list" where
  "load_file raw_data = load_loop raw_data []"

section \<open>Export (\<open>main.py\<close>)\<close>

text \<open>
  \<open>translated_data\<close> maps a key to the dictionary of its translations by language. A
  translation that is \<open>None\<close> or empty is falsy.
\<close>

fun export_originals ::
  "(string \<times> entry) list \<Rightarrow> (string \<times> (string \<times> string) list) list \<Rightarrow> string \<Rightarrow>
   (string \<times> string) list \<Rightarrow> (string \<times> string) list" where
  "export_originals [] translated_data current_lang export_data = export_data"
| "export_originals ((key, original_entry) # rest) translated_data current_lang export_data =
     (let translated_text =
            (case map_of translated_data key of
               Some lang_map \<Rightarrow> map_of lang_map current_lang
             | None \<Rightarrow> None);
          v = (case translated_text of
                 Some t \<Rightarrow> if t \<noteq> [] then t else entry_text original_entry
               | None \<Rightarrow> entry_text original_entry)
      in export_originals rest translated_data current_lang (dict_set export_data key v))"

fun export_extras ::
  "(string \<times> (string \<times> string) list) list \<Rightarrow> string \<Rightarrow>
   (string \<times> string) list \<Rightarrow> (string \<times> string) list" where
  "export_extras [] current_lang export_data = export_data"
| "export_extras ((key, lang_map) # rest) current_lang export_data =
     (if key \<notin> fst ` set export_data
      then (case map_of lang_map current_lang of
              Some t \<Rightarrow>
                if t \<noteq> [] then export_extras rest current_lang (dict_set export_data key t)
                else export_extras rest current_lang export_data
            | None \<Rightarrow> export_extras rest current_lang export_data)
      else export_extras rest current_lang export_data)"

text \<open>
  What \<open>export_file\<close> does: it shows a warning and writes nothing when no data is loaded
  (an empty dictionary is falsy); it writes nothing when the file dialog gives no path;
  otherwise it builds \<open>export_data\<close> in the two loops and writes it to the file as JSON,
  or shows an error when writing raises.
\<close>

datatype export_result =
    NoSourceFile
  | Cancelled
  | Exported "(string \<times> string) list"
  | ExportError string

text \<open>
  \<open>file_path\<close> is what the file dialog returns, empty when the user cancels;
  \<open>write_error\<close> is the message of the exception that opening or writing the file
  raises, if it raises.
\<close>

definition export_file ::
  "(string \<times> entry) list \<Rightarrow> (string \<times> (string \<times> string) list) list \<Rightarrow> string \<Rightarrow>
   string \<Rightarrow> string option \<Rightarrow> export_result" where
  "export_file localization_data translated_data current_lang file_path write_error =
     (if localization_data = [] then NoSourceFile
      else if file_path = [] then Cancelled
      else
        let export_data =
              export_extras translated_data current_lang
                (export_originals localization_data translated_data current_lang [])
        in (case write_error of
              None \<Rightarrow> Exported export_data
            | Some e \<Rightarrow> ExportError e))"

section \<open>The MD5 digest\<close>

text \<open>
  \<open>hashlib.md5(data).hexdigest()\<close> of the Python library, after RFC 1321: the message is
  padded to a multiple of 64 bytes, read as little-endian 32-bit words, and each block of
  16 words goes through 64 steps on a state of four words.
\<close>

definition md5_k :: "32 word list" where
  "md5_k =
    [0xD76AA478, 0xE8C7B756, 0x242070DB, 0xC1BDCEEE,
     0xF57C0FAF, 0x4787C62A, 0xA8304613, 0xFD469501,
     0x698098D8, 0x8B44F7AF, 0xFFFF5BB1, 0x895CD7BE,
     0x6B901122, 0xFD987193, 0xA679438E, 0x49B40821,
     0xF61E2562, 0xC040B340, 0x265E5A51, 0xE9B6C7AA,
     0xD62F105D, 0x02441453, 0xD8A1E681, 0xE7D3FBC8,
     0x21E1CDE6, 0xC33707D6, 0xF4D50D87, 0x455A14ED,
     0xA9E3E905, 0xFCEFA3F8, 0x676F02D9, 0x8D2A4C8A,
     0xFFFA3942, 0x8771F681, 0x6D9D6122, 0xFDE5380C,
     0xA4BEEA44, 0x4BDECFA9, 0xF6BB4B60, 0xBEBFBC70,
     0x289B7EC6, 0xEAA127FA, 0xD4EF3085, 0x04881D05,
     0xD9D4D039, 0xE6DB99E5, 0x1FA27CF8, 0xC4AC5665,
     0xF4292244, 0x432AFF97, 0xAB9423A7, 0xFC93A039,
     0x655B59C3, 0x8F0CCC92, 0xFFEFF47D, 0x85845DD1,
     0x6FA87E4F, 0xFE2CE6E0, 0xA3014314, 0x4E0811A1,
     0xF7537E82, 0xBD3AF235, 0x2AD7D2BB, 0xEB86D391]"

definition md5_s :: "nat list" where
  "md5_s =
    [7, 12, 17, 22, 7, 12, 17, 22, 7, 12, 17, 22, 7, 12, 17, 22,
     5, 9, 14, 20, 5, 9, 14, 20, 5, 9, 14, 20, 5, 9, 14, 20,
     4, 11, 16, 23, 4, 11, 16, 23, 4, 11, 16, 23, 4, 11, 16, 23,
     6, 10, 15, 21, 6, 10, 15, 21, 6, 10, 15, 21, 6, 10, 15, 21]"

definition md5_f :: "nat \<Rightarrow> 32 word \<Rightarrow> 32 word \<Rightarrow> 32 word \<Rightarrow> 32 word" where
  "md5_f i b c d =
     (if i < 16 then (b AND c) OR (NOT b AND d)
      else if i < 32 then (d AND b) OR (NOT d AND c)
      else if i < 48 then b XOR c XOR d
      else c XOR (b OR NOT d))"

definition md5_g :: "nat \<Rightarrow> nat" where
  "md5_g i =
     (if i < 16 then i
      else if i < 32 then (5 * i + 1) mod 16
      else if i < 48 then (3 * i + 5) mod 16
      else (7 * i) mod 16)"

type_synonym md5_state = "32 word \<times> 32 word \<times> 32 word \<times> 32 word"

fun md5_step :: "32 word list \<Rightarrow> nat \<Rightarrow> md5_state \<Rightarrow> md5_state" where
  "md5_step m i (a, b, c, d) =
     (d, b + word_rotl (md5_s ! i) (md5_f i b c d + a + md5_k ! i + m ! md5_g i), b, c)"

fun md5_block :: "md5_state \<Rightarrow> 32 word list \<Rightarrow> md5_state" where
  "md5_block (a0, b0, c0, d0) m =
     (case fold (md5_step m) [0..<64] (a0, b0, c0, d0) of
        (a, b, c, d) \<Rightarrow> (a0 + a, b0 + b, c0 + c, d0 + d))"

text \<open>The bytes of a word, least significant first.\<close>

definition le_bytes :: "nat \<Rightarrow> 'a::len word \<Rightarrow> 8 word list" where
  "le_bytes n x = map (\<lambda>i. ucast (drop_bit (8 * i) x)) [0..<n]"

definition md5_pad :: "8 word list \<Rightarrow> 8 word list" where
  "md5_pad bs =
     bs @ [0x80] @ replicate ((119 - length bs mod 64) mod 64) 0
        @ le_bytes 8 (word_of_nat (8 * length bs) :: 64 word)"

fun le_words :: "8 word list \<Rightarrow> 32 word list" where
  "le_words (b0 # b1 # b2 # b3 # bs) =
     (ucast b0 OR push_bit 8 (ucast b1) OR push_bit 16 (ucast b2) OR push_bit 24 (ucast b3))
       # le_words bs"
| "le_words bs = []"

function blocks16 :: "'a list \<Rightarrow> 'a list list" where
  "blocks16 ws = (if ws = [] then [] else take 16 ws # blocks16 (drop 16 ws))"
  by pat_completeness auto
termination
  by (relation "measure length") auto

declare blocks16.simps [simp del]

definition hex_byte :: "8 word \<Rightarrow> string" where
  "hex_byte b =
     [''0123456789abcdef'' ! unat (drop_bit 4 b), ''0123456789abcdef'' ! unat (b AND 0x0F)]"

definition md5_hexdigest :: "8 word list \<Rightarrow> string" where
  "md5_hexdigest bs =
     (case fold (\<lambda>m st. md5_block st m) (blocks16 (le_words (md5_pad bs)))
             (0x67452301, 0xEFCDAB89, 0x98BADCFE, 0x10325476) of
        (a, b, c, d) \<Rightarrow> concat (map (\<lambda>w. concat (map hex_byte (le_bytes 4 w))) [a, b, c, d]))"

section \<open>Translation service (\<open>translation_service.py\<close>)\<close>

text \<open>
  \<open>content.encode('utf-8')\<close>: a code point below 128 is one byte, a code point from 128
  to 255 is two bytes.
\<close>

definition encode_char :: "char \<Rightarrow> nat list" where
  "encode_char c =
     (let n = of_char c
      in if n < 128 then [n] else [192 + n div 64, 128 + n mod 64])"

definition encode_utf8 :: "string \<Rightarrow> 8 word list" where
  "encode_utf8 s = map of_nat (concat (map encode_char s))"

text \<open>\<open>get_cache_key\<close>: the digest of the four arguments joined by \<open>|\<close>.\<close>

definition get_cache_key :: "string \<Rightarrow> string \<Rightarrow> string \<Rightarrow> string \<Rightarrow> string" where
  "get_cache_key text target_language style context =
     (let content = text @ ''|'' @ target_language @ ''|'' @ style @ ''|'' @ context
      in md5_hexdigest (encode_utf8 content))"

text \<open>
  One call of the backend either raises (any exception raised inside the \<open>try\<close> block,
  with its message) or returns the content of the first choice.
\<close>

datatype api_result = ApiError string | ApiContent string

text \<open>
  The state of the service: the client, if one is configured, as the function from the
  number of calls made so far and the prompt to the outcome of the next call; the cache;
  and, as a record of the effects, the number of calls made and the arguments of
  \<open>time.sleep\<close> in order. \<open>save_cache\<close> writes a file and swallows its own errors; it
  changes nothing here.
\<close>

record service =
  client :: "(nat \<Rightarrow> string \<Rightarrow> api_result) option"
  translation_cache :: "string \<rightharpoonup> string"
  api_calls :: nat
  slept :: "nat list"

definition style_templates :: "(string \<times> string \<times> string) list" where
  "style_templates =
     [(''formal'',
       ''Professional, formal tone suitable for business applications'',
       ''Use formal, professional language appropriate for business software.''),
      (''conversational'',
       ''Natural, conversational tone for user interactions'',
       ''Use natural, conversational language that feels friendly and approachable.''),
      (''chatbot'',
       ''Friendly, helpful tone optimized for chatbot interactions'',
       ''Use friendly, helpful language optimized for chatbot conversations. Be concise and clear.'')]"

definition nl :: string where
  "nl = [CHR 0x0A]"

definition build_translation_prompt :: "string \<Rightarrow> string \<Rightarrow> string \<Rightarrow> string \<Rightarrow> string" where
  "build_translation_prompt text target_language style context =
     (let style_info =
            (case map_of style_templates style of
               Some info \<Rightarrow> info
             | None \<Rightarrow> the (map_of style_templates ''formal''));
          prompt = ''Translate the following text to '' @ target_language @ ''.'' @ nl @ nl
            @ ''Context: This text is from a Microsoft Copilot Studio chatbot interface.'' @ nl;
          prompt = (if context \<noteq> [] then prompt @ ''Specific context: '' @ context @ nl
                    else prompt)
      in prompt @ nl
         @ ''Translation style: '' @ fst style_info @ nl
         @ snd style_info @ nl @ nl
         @ ''Important guidelines:'' @ nl
         @ ''1. Maintain the exact meaning and intent of the original text'' @ nl
         @ ''2. Preserve any formatting, placeholders (like {variables}), or special characters'' @ nl
         @ ''3. Keep emoji and Unicode characters as they are'' @ nl
         @ ''4. Ensure the translation is culturally appropriate for the target language'' @ nl
         @ ''5. For UI elements, use standard terminology for that language's software interfaces'' @ nl
         @ ''6. For chatbot responses, maintain the conversational flow and tone'' @ nl @ nl
         @ ''Text to translate:'' @ nl
         @ [CHR 0x22] @ text @ [CHR 0x22] @ nl @ nl
         @ ''Provide only the translated text without any explanations or additional content.'')"

definition mock_translate :: "string \<Rightarrow> string \<Rightarrow> string \<Rightarrow> string" where
  "mock_translate text target_language style =
     (let style_prefix =
            (case map_of [(''formal'', ''[FORMAL]''), (''conversational'', ''[CONV]''),
                          (''chatbot'', ''[BOT]'')] style of
               Some p \<Rightarrow> p
             | None \<Rightarrow> ''[TRANS]'')
      in style_prefix @ '' '' @ text @ '' ['' @ upper target_language @ '']'')"

text \<open>The removal of one pair of surrounding quotes: \<open>translated_text[1:-1]\<close>.\<close>

definition unquote :: "string \<Rightarrow> string" where
  "unquote t =
     (if (startswith t [CHR 0x22] \<and> endswith t [CHR 0x22])
         \<or> (startswith t [CHR 0x27] \<and> endswith t [CHR 0x27])
      then butlast (tl t)
      else t)"

text \<open>
  The loop \<open>for attempt in range(max_retries)\<close>, over the attempts that remain. The
  sentinel after the loop is reached only when the range is empty.
\<close>

fun retry_loop ::
  "(nat \<Rightarrow> string \<Rightarrow> api_result) \<Rightarrow> nat list \<Rightarrow> int \<Rightarrow> string \<Rightarrow> string \<Rightarrow> service \<Rightarrow>
   string \<times> service" where
  "retry_loop backend [] max_retries cache_key prompt st =
     (''[ERROR: Translation failed after retries]'', st)"
| "retry_loop backend (attempt # rest) max_retries cache_key prompt st =
     (case backend (api_calls st) prompt of
        ApiContent content \<Rightarrow>
          (let translated_text = unquote (strip content)
           in (translated_text,
               st\<lparr>api_calls := api_calls st + 1,
                  translation_cache := (translation_cache st)(cache_key \<mapsto> translated_text)\<rparr>))
      | ApiError e \<Rightarrow>
          (let st = st\<lparr>api_calls := api_calls st + 1\<rparr>
           in if int attempt = max_retries - 1
              then (''[ERROR: Translation failed: '' @ e @ '']'', st)
              else retry_loop backend rest max_retries cache_key prompt
                     (st\<lparr>slept := slept st @ [2 ^ attempt]\<rparr>)))"

definition translate ::
  "service \<Rightarrow> string \<Rightarrow> string \<Rightarrow> string \<Rightarrow> string \<Rightarrow> int \<Rightarrow> string \<times> service" where
  "translate st text target_language style context max_retries =
     (let cache_key = get_cache_key text target_language style context
      in case translation_cache st cache_key of
           Some cached \<Rightarrow> (cached, st)
         | None \<Rightarrow>
             (case client st of
                None \<Rightarrow> (mock_translate text target_language style, st)
              | Some backend \<Rightarrow>
                  retry_loop backend [0..<nat max_retries] max_retries cache_key
                    (build_translation_prompt text target_language style context) st))"

text \<open>
  \<open>translate_batch\<close>: the loop over \<open>enumerate(zip(texts, contexts))\<close>, with the list of
  results and the list of the calls of the progress callback, each call with its four
  arguments. \<open>translate\<close> is called with its default of three attempts.
\<close>

fun batch_loop ::
  "service \<Rightarrow> string \<Rightarrow> string \<Rightarrow> nat \<Rightarrow> bool \<Rightarrow> (nat \<times> string \<times> string) list \<Rightarrow>
   string list \<Rightarrow> (nat \<times> nat \<times> string \<times> string) list \<Rightarrow>
   string list \<times> (nat \<times> nat \<times> string \<times> string) list \<times> service" where
  "batch_loop st target_language style total_n progress_callback [] results progress =
     (results, progress, st)"
| "batch_loop st target_language style total_n progress_callback ((i, text, context) # rest)
      results progress =
     (case translate st text target_language style context 3 of
        (translated, st') \<Rightarrow>
          batch_loop st' target_language style total_n progress_callback rest
            (results @ [translated])
            (if progress_callback then progress @ [(i + 1, total_n, text, translated)]
             else progress))"

definition translate_batch ::
  "service \<Rightarrow> string list \<Rightarrow> string \<Rightarrow> string \<Rightarrow> string list option \<Rightarrow> bool \<Rightarrow>
   string list \<times> (nat \<times> nat \<times> string \<times> string) list \<times> service" where
  "translate_batch st texts target_language style contexts progress_callback =
     (let contexts = (case contexts of None \<Rightarrow> replicate (length texts) [] | Some cs \<Rightarrow> cs);
          total_n = length texts
      in batch_loop st target_language style total_n progress_callback
           (enumerate 0 (zip texts contexts)) [] [])"

text \<open>
  Python's \<open>float\<close> is the binary64 format. A float is modelled by the rational number
  it stands for, and an operation by the exact result rounded to the nearest float, ties
  to the even significand: 53 bits at the exponent of the value, and no finer than
  \<open>2\<close> to the \<open>-1074\<close>. Overflow is not modelled; it takes values from \<open>2\<close> to the
  \<open>1024\<close> on, which the lengths of strings never reach.
\<close>

definition round_half_even :: "rat \<Rightarrow> int" where
  "round_half_even x =
     (let n = \<lfloor>x\<rfloor>; f = x - of_int n
      in if f < 1 / 2 then n
         else if f > 1 / 2 then n + 1
         else if even n then n else n + 1)"

definition pow2 :: "int \<Rightarrow> rat" where
  "pow2 k = (if k \<ge> 0 then 2 ^ nat k else 1 / 2 ^ nat (- k))"

text \<open>The exponent \<open>e\<close> of a positive number \<open>a\<close>: \<open>pow2 e \<le> a < pow2 (e + 1)\<close>.\<close>

definition floor_log2 :: "rat \<Rightarrow> int" where
  "floor_log2 a =
     (case quotient_of a of
        (n, d) \<Rightarrow> let k = bitlen n - bitlen d in if pow2 k \<le> a then k else k - 1)"

definition round_double :: "rat \<Rightarrow> rat" where
  "round_double q =
     (if q = 0 then 0
      else let a = \<bar>q\<bar>;
               u = pow2 (max (floor_log2 a - 52) (- 1074))
           in sgn q * of_int (round_half_even (a / u)) * u)"

text \<open>A decimal literal such as \<open>0.2\<close>, the subtraction and the division of floats.\<close>

definition float_literal :: "rat \<Rightarrow> rat" where
  "float_literal q = round_double q"

definition fsub :: "rat \<Rightarrow> rat \<Rightarrow> rat" where
  "fsub a b = round_double (a - b)"

definition fdiv :: "rat \<Rightarrow> rat \<Rightarrow> rat" where
  "fdiv a b = round_double (a / b)"

text \<open>
  The result of \<open>validate_translation\<close>. A warning is kept as its kind and the values its
  message shows.
\<close>

datatype warning =
    PlaceholderMismatch "string list" "string list"
  | UnusualLengthRatio rat
  | TranslationUnchanged

record validation_result =
  is_valid :: bool
  warnings :: "warning list"
  errors :: "string list"
  score :: rat

definition not_rbrace :: "char \<Rightarrow> bool" where
  "not_rbrace c = (c \<noteq> CHR ''}'')"

definition extract_placeholders :: "string \<Rightarrow> string list" where
  "extract_placeholders text = findall [Lit ''{'', Plus not_rbrace, Lit ''}''] text"

definition validate_translation :: "string \<Rightarrow> string \<Rightarrow> string \<Rightarrow> validation_result" where
  "validate_translation original translated target_language =
     (let validation_result = \<lparr> is_valid = True, warnings = [], errors = [], score = 1 \<rparr>
      in if translated = [] \<or> strip translated = []
         then validation_result
                \<lparr> errors := errors validation_result @ [''Translation is empty''],
                  is_valid := False, score := 0 \<rparr>
         else if startswith translated ''[ERROR:''
         then validation_result
                \<lparr> errors := errors validation_result @ [''Translation contains error message''],
                  is_valid := False, score := 0 \<rparr>
         else
           let original_placeholders = extract_placeholders original;
               translated_placeholders = extract_placeholders translated;
               validation_result =
                 (if original_placeholders \<noteq> translated_placeholders
                  then validation_result
                         \<lparr> warnings := warnings validation_result
                              @ [PlaceholderMismatch original_placeholders translated_placeholders],
                           score := fsub (score validation_result) (float_literal (2 / 10)) \<rparr>
                  else validation_result);
               length_ratio =
                 (if length original > 0
                  then fdiv (rat_of_nat (length translated)) (rat_of_nat (length original))
                  else 1);
               validation_result =
                 (if length_ratio > 3 \<or> length_ratio < float_literal (3 / 10)
                  then validation_result
                         \<lparr> warnings := warnings validation_result @ [UnusualLengthRatio length_ratio],
                           score := fsub (score validation_result) (float_literal (1 / 10)) \<rparr>
                  else validation_result);
               validation_result =
                 (if lower original = lower translated
                  then validation_result
                         \<lparr> warnings := warnings validation_result @ [TranslationUnchanged],
                           score := fsub (score validation_result) (float_literal (3 / 10)) \<rparr>
                  else validation_result)
           in validation_result \<lparr> score := max 0 (score validation_result) \<rparr>)"

section \<open>The classification rules as the specification words them\<close>

text \<open>
  A case-insensitive substring: some substring of the key is the given text once
  lower-cased.
\<close>

definition contains_ignoring_case :: "string \<Rightarrow> string \<Rightarrow> bool" where
  "contains_ignoring_case s key = (\<exists>w. sublist w key \<and> lower w = s)"

text \<open>The six rules of the UI component, the first applicable one deciding.\<close>

definition ui_component_by_rules :: "string \<Rightarrow> string" where
  "ui_component_by_rules key =
     (if sublist ''.Card.'' key then ''Card''
      else if sublist ''.Activity.'' key then ''Activity''
      else if sublist ''.Prompt.'' key then ''Prompt''
      else if sublist ''.Entity.'' key then ''Entity''
      else if sublist ''.Intent.'' key then ''Intent''
      else if sublist ''.Dialog.'' key then ''Dialog''
      else if sublist '''globalVariable('' key then ''GlobalVariable''
      else if contains_ignoring_case ''knowledgesourcecomponent'' key
              \<or> contains_ignoring_case ''knowledge_source_component'' key
           then ''KnowledgeSourceComponent''
      else if contains_ignoring_case ''.knowledgebase.'' key
              \<or> contains_ignoring_case ''knowledgebase('' key
              \<or> contains_ignoring_case ''.knowledgesource.'' key
           then ''KnowledgeSource''
      else if suffix ''.DisplayName'' key \<and> sublist '''dialog('' key
              \<and> \<not> sublist ''.Entity.'' key \<and> \<not> sublist ''.Card.'' key
              \<and> \<not> sublist ''.Activity.'' key \<and> \<not> sublist ''.Prompt.'' key
           then ''DialogDisplayName''
      else ''Unknown'')"

text \<open>
  The cleanup of a captured topic name: underscores and hyphens become spaces, a space
  goes between every lowercase letter and an uppercase letter that follows it, and each
  word is written with a capital first letter and the rest in lowercase, except that
  the four acronyms and the words of one character are written in uppercase.
\<close>

fun spaced_camel_case :: "string \<Rightarrow> string" where
  "spaced_camel_case [] = []"
| "spaced_camel_case [a] = [a]"
| "spaced_camel_case (a # b # cs) =
     (if is_lower a \<and> is_upper b then a # CHR '' '' # spaced_camel_case (b # cs)
      else a # spaced_camel_case (b # cs))"

definition word_by_rules :: "string \<Rightarrow> string" where
  "word_by_rules w =
     (if lower w \<in> {''copilot'', ''ai'', ''ui'', ''api''} then upper w
      else if length w = 1 then upper w
      else capitalize w)"

definition topic_by_rules :: "string \<Rightarrow> string" where
  "topic_by_rules name =
     join '' ''
       (map word_by_rules
         (split (spaced_camel_case
           (map (\<lambda>c. if c = CHR ''_'' \<or> c = CHR ''-'' then CHR '' '' else c) name))))"

section \<open>The state of the service in the course of a batch\<close>

text \<open>
  \<open>state_after st target_language style pairs j\<close> is the state of the service once the
  first \<open>j\<close> of the given pairs of a text and a context have been translated in turn,
  starting from \<open>st\<close>, each with three attempts.
\<close>

fun state_after ::
  "service \<Rightarrow> string \<Rightarrow> string \<Rightarrow> (string \<times> string) list \<Rightarrow> nat \<Rightarrow> service" where
  "state_after st target_language style pairs 0 = st"
| "state_after st target_language style [] (Suc j) = st"
| "state_after st target_language style ((text, context) # pairs) (Suc j) =
     state_after (snd (translate st text target_language style context 3))
       target_language style pairs j"

text \<open>
  The score after the deductions, in the order of the checks: each deduction that
  applies is one subtraction of floats.
\<close>

definition deduct :: "bool \<Rightarrow> rat \<Rightarrow> rat \<Rightarrow> rat" where
  "deduct applies amount s = (if applies then fsub s (float_literal amount) else s)"

section \<open>Properties of the string primitives\<close>

lemma contains_sublist: "contains s key = sublist s key"
  by (induction key) (simp_all add: sublist_Cons_right)

section \<open>Properties of structure validation\<close>

lemma check_entries_append:
  "check_entries items acc = acc @ check_entries items []"
proof (induction items arbitrary: acc)
  case Nil
  show ?case by simp
next
  case (Cons e items)
  obtain key v where e: "e = (key, v)" by (cases e)
  show ?case
    unfolding e check_entries.simps Let_def
    by (subst Cons.IH, subst (2) Cons.IH) simp
qed

lemma check_entries_well_typed:
  "\<forall>e \<in> set items. is_str (snd e) \<Longrightarrow>
   check_entries items [] =
     map format_error (filter (\<lambda>k. \<not> has_root_marker k) (map fst items))"
proof (induction items)
  case Nil
  show ?case by simp
next
  case (Cons e items)
  obtain key v where e: "e = (key, v)" by (cases e)
  from Cons.prems have v: "is_str v" and rest: "\<forall>e \<in> set items. is_str (snd e)"
    by (simp_all add: e)
  have "check_entries (e # items) [] =
        (if has_root_marker key then [] else [format_error key]) @ check_entries items []"
    using v by (simp add: e check_entries_append [of items "[format_error key]"])
  then show ?case
    using Cons.IH [OF rest] by (simp add: e)
qed

lemma format_error_inj: "format_error a = format_error b \<longleftrightarrow> a = b"
  by (simp add: format_error_def)

lemma marker_not_raw: "truncation_marker \<notin> set (check_entries items acc)
  \<longleftrightarrow> truncation_marker \<notin> set acc"
proof (induction items arbitrary: acc)
  case Nil
  show ?case by simp
next
  case (Cons e items)
  obtain key v where e: "e = (key, v)" by (cases e)
  show ?case
    unfolding e check_entries.simps Let_def
    by (subst Cons.IH) (simp add: value_error_def format_error_def truncation_marker_def)
qed

lemma marker_cap:
  "truncation_marker \<notin> set raw \<Longrightarrow>
   truncation_marker \<in> set (cap_errors raw) \<longleftrightarrow> length raw > 10"
  by (auto simp: cap_errors_def dest: in_set_takeD)

text \<open>
  C3 (as amended). For a mapping whose values are all strings, the errors found are the
  format errors of the keys that contain none of the three root markers, in the order of
  the keys; so a key of the mapping gets a format error exactly when it contains none of
  \<open>'dialog(\<close>, \<open>'topic(\<close>, \<open>'globalVariable(\<close>, each marker starting with an apostrophe.
  The returned list is this list, capped.
\<close>

theorem validate_structure_format_error:
  assumes "\<forall>e \<in> set items. is_str (snd e)" and "key \<in> fst ` set items"
  shows "(format_error key \<in> set (check_entries items []) \<longleftrightarrow>
            \<not> (sublist '''dialog('' key \<or> sublist '''topic('' key
                \<or> sublist '''globalVariable('' key))
         \<and> snd (validate_structure (Loaded (JObject items))) =
            cap_errors (map format_error
              (filter (\<lambda>k. \<not> has_root_marker k) (map fst items)))"
proof -
  have raw: "check_entries items [] =
      map format_error (filter (\<lambda>k. \<not> has_root_marker k) (map fst items))"
    using assms(1) by (rule check_entries_well_typed)
  have "format_error key \<in> set (check_entries items []) \<longleftrightarrow> \<not> has_root_marker key"
    using assms(2) by (auto simp: raw format_error_inj)
  then show ?thesis
    by (simp add: raw has_root_marker_def contains_sublist Let_def)
qed

theorem validate_structure_format_error_witness:
  "format_error ''foo.text'' \<in> set (check_entries
      [('''dialog(a).text'', JString ''Hi''), (''foo.text'', JString ''Yo'')] [])
   \<and> format_error '''dialog(a).text'' \<notin> set (check_entries
      [('''dialog(a).text'', JString ''Hi''), (''foo.text'', JString ''Yo'')] [])
   \<and> validate_structure (Loaded (JObject
      [('''dialog(a).text'', JString ''Hi''), (''foo.text'', JString ''Yo'')])) =
      (False, [''Key doesn't match expected format: foo.text''])"
  using validate_structure_format_error
    [of "[('''dialog(a).text'', JString ''Hi''), (''foo.text'', JString ''Yo'')]" "''foo.text''"]
  by (simp add: has_root_marker_def format_error_def cap_errors_def)

text \<open>
  C3 (as stated) fails: the key \<open>dialog(x).text\<close> contains the marker \<open>dialog(\<close>, and it
  gets a format error all the same, since no apostrophe stands before the marker.
\<close>

theorem validate_structure_format_error_counterexample:
  "sublist ''dialog('' ''dialog(x).text''
   \<and> validate_structure (Loaded (JObject [(''dialog(x).text'', JString ''Hi'')])) =
      (False, [''Key doesn't match expected format: dialog(x).text''])"
  by (simp add: sublist_Cons_right has_root_marker_def format_error_def cap_errors_def)

text \<open>
  C7. For every input, the flag is true exactly when the returned list is empty. For a
  JSON object the returned list is the list of errors found when there are at most ten
  of them, and otherwise its first ten entries followed by the marker
  \<open>... (showing first 10 errors)\<close>; the marker is in the returned list exactly when
  more than ten errors were found, and at most ten entries of the returned list are not
  the marker.
\<close>

theorem validate_structure_cap:
  "(fst (validate_structure fr) \<longleftrightarrow> snd (validate_structure fr) = [])
   \<and> length (filter (\<lambda>e. e \<noteq> truncation_marker) (snd (validate_structure fr))) \<le> 10
   \<and> (\<forall>items. fr = Loaded (JObject items) \<longrightarrow>
        snd (validate_structure fr) =
          (if length (check_entries items []) > 10
           then take 10 (check_entries items []) @ [truncation_marker]
           else check_entries items [])
        \<and> (truncation_marker \<in> set (snd (validate_structure fr)) \<longleftrightarrow>
             length (check_entries items []) > 10))"
proof -
  have flag: "fst (validate_structure fr) \<longleftrightarrow> snd (validate_structure fr) = []"
    by (cases fr rule: validate_structure.cases) (simp_all add: Let_def)
  have cap10: "length (filter (\<lambda>e. e \<noteq> truncation_marker) (cap_errors raw)) \<le> 10" for raw
  proof (cases "length raw > 10")
    case True
    have "length (filter (\<lambda>e. e \<noteq> truncation_marker) (take 10 raw)) \<le> length (take 10 raw)"
      by (rule length_filter_le)
    also have "\<dots> \<le> 10" by simp
    finally show ?thesis using True by (simp add: cap_errors_def)
  next
    case False
    have "length (filter (\<lambda>e. e \<noteq> truncation_marker) raw) \<le> length raw"
      by (rule length_filter_le)
    also have "\<dots> \<le> 10" using False by simp
    finally show ?thesis using False by (simp add: cap_errors_def)
  qed
  have bound: "length (filter (\<lambda>e. e \<noteq> truncation_marker) (snd (validate_structure fr))) \<le> 10"
    by (cases fr rule: validate_structure.cases) (simp_all add: Let_def cap10)
  have obj: "snd (validate_structure (Loaded (JObject items))) =
          (if length (check_entries items []) > 10
           then take 10 (check_entries items []) @ [truncation_marker]
           else check_entries items [])
        \<and> (truncation_marker \<in> set (snd (validate_structure (Loaded (JObject items)))) \<longleftrightarrow>
             length (check_entries items []) > 10)" for items
  proof -
    have "truncation_marker \<notin> set (check_entries items [])"
      by (simp add: marker_not_raw)
    then have "truncation_marker \<in> set (cap_errors (check_entries items [])) \<longleftrightarrow>
        length (check_entries items []) > 10"
      by (rule marker_cap)
    then show ?thesis by (simp add: Let_def cap_errors_def)
  qed
  show ?thesis using flag bound obj by blast
qed

theorem validate_structure_cap_witness:
  "validate_structure (Loaded (JObject
      [(''a'', JString ''x''), (''b'', JString ''x''), (''c'', JString ''x''),
       (''d'', JString ''x''), (''e'', JString ''x''), (''f'', JString ''x''),
       (''g'', JString ''x''), (''h'', JString ''x''), (''i'', JString ''x''),
       (''j'', JString ''x''), (''k'', JString ''x'')])) =
     (False, map format_error
        [''a'', ''b'', ''c'', ''d'', ''e'', ''f'', ''g'', ''h'', ''i'', ''j'']
        @ [truncation_marker])
   \<and> validate_structure (Loaded (JObject [('''topic(a).text'', JString ''x'')])) = (True, [])
   \<and> validate_structure (Loaded (JArray [])) = (False, [''File must contain a JSON object''])"
  using validate_structure_cap
    [of "Loaded (JObject
      [(''a'', JString ''x''), (''b'', JString ''x''), (''c'', JString ''x''),
       (''d'', JString ''x''), (''e'', JString ''x''), (''f'', JString ''x''),
       (''g'', JString ''x''), (''h'', JString ''x''), (''i'', JString ''x''),
       (''j'', JString ''x''), (''k'', JString ''x'')])"]
  by (simp add: has_root_marker_def cap_errors_def)

section \<open>Properties of the cache key\<close>

text \<open>
  The digest on the test suite of RFC 1321 (the empty message, \<open>a\<close>, \<open>abc\<close>,
  \<open>message digest\<close>, and a message of 80 bytes, which takes two blocks), and on a text
  with two characters outside ASCII.
\<close>

lemma md5_test_suite:
  "md5_hexdigest (encode_utf8 '''') = ''d41d8cd98f00b204e9800998ecf8427e''"
  "md5_hexdigest (encode_utf8 ''a'') = ''0cc175b9c0f1b6a831c399e269772661''"
  "md5_hexdigest (encode_utf8 ''abc'') = ''900150983cd24fb0d6963f7d28e17f72''"
  "md5_hexdigest (encode_utf8 ''message digest'') = ''f96b697d7cb7938d525a2f31aaf161d0''"
  "md5_hexdigest (encode_utf8
     ''12345678901234567890123456789012345678901234567890123456789012345678901234567890'')
   = ''57edf4a22be3c955ac49da2e2107b67a''"
  by code_simp+

lemma get_cache_key_latin1:
  "get_cache_key (''caf'' @ [CHR 0xE9]) (''Espa'' @ [CHR 0xF1] @ ''ol'') ''formal'' ''''
   = ''c9d2bb8119a69039a13ef220716ada28''"
  by code_simp

lemma hex_byte_digits:
  "length (hex_byte b) = 2 \<and> set (hex_byte b) \<subseteq> set ''0123456789abcdef''"
proof -
  have hi: "unat (drop_bit 4 b) < 16"
  proof -
    have "unat (drop_bit 4 b) = drop_bit 4 (unat b)" by (rule unat_drop_bit_eq)
    also have "\<dots> = unat b div 2 ^ 4" by (rule drop_bit_eq_div)
    finally have "unat (drop_bit 4 b) = unat b div 2 ^ 4" .
    moreover have "unat b < 2 ^ 8" using unsigned_less [of b] by simp
    ultimately show ?thesis by simp
  qed
  have lo: "unat (b AND 0x0F) < 16"
  proof -
    have "b AND 0x0F \<le> 0x0F" by (rule word_and_le1)
    then have "unat (b AND 0x0F) \<le> unat (0x0F :: 8 word)" by (simp add: word_le_nat_alt)
    then show ?thesis by simp
  qed
  have "''0123456789abcdef'' ! n \<in> set ''0123456789abcdef''" if "n < 16" for n
    using that by (intro nth_mem) simp
  with hi lo show ?thesis by (simp add: hex_byte_def)
qed

lemma md5_hexdigest_digits:
  "length (md5_hexdigest bs) = 32 \<and> set (md5_hexdigest bs) \<subseteq> set ''0123456789abcdef''"
proof -
  obtain a b c d where st:
    "fold (\<lambda>m st. md5_block st m) (blocks16 (le_words (md5_pad bs)))
       (0x67452301, 0xEFCDAB89, 0x98BADCFE, 0x10325476) = (a, b, c, d)"
    by (metis prod_cases4)
  have four: "[0..<4] = [0, 1, 2, 3]" by (simp add: upt_rec)
  have word: "length (concat (map hex_byte (le_bytes 4 w))) = 8
      \<and> set (concat (map hex_byte (le_bytes 4 w))) \<subseteq> set ''0123456789abcdef''"
    for w :: "32 word"
    using hex_byte_digits by (simp add: le_bytes_def four del: upt_Suc)
  show ?thesis
    unfolding md5_hexdigest_def st prod.case
    using word [of a] word [of b] word [of c] word [of d] by simp
qed

lemma split_at_separator:
  "x \<notin> set a \<Longrightarrow> x \<notin> set b \<Longrightarrow> (a @ x # r = b @ x # r') = (a = b \<and> r = r')"
proof (induction a arbitrary: b)
  case Nil
  then show ?case by (cases b) auto
next
  case (Cons y a)
  then show ?case by (cases b) auto
qed

lemma joined_inj:
  assumes "CHR ''|'' \<notin> set (t1 @ l1 @ s1 @ t2 @ l2 @ s2)"
  shows "t1 @ ''|'' @ l1 @ ''|'' @ s1 @ ''|'' @ c1 = t2 @ ''|'' @ l2 @ ''|'' @ s2 @ ''|'' @ c2
         \<longleftrightarrow> t1 = t2 \<and> l1 = l2 \<and> s1 = s2 \<and> c1 = c2"
proof -
  from assms have t: "CHR ''|'' \<notin> set t1" "CHR ''|'' \<notin> set t2"
    and l: "CHR ''|'' \<notin> set l1" "CHR ''|'' \<notin> set l2"
    and s: "CHR ''|'' \<notin> set s1" "CHR ''|'' \<notin> set s2"
    by simp_all
  show ?thesis
    by (simp add: split_at_separator [OF t] split_at_separator [OF l] split_at_separator [OF s])
qed

text \<open>The encoding loses nothing: different strings are encoded to different bytes.\<close>

lemma encode_char_bytes: "\<forall>n \<in> set (encode_char c). n < 256"
proof -
  have n: "(of_char c :: nat) < 256" by simp
  then have "192 + (of_char c :: nat) div 64 < 256" "128 + (of_char c :: nat) mod 64 < 256"
    by arith+
  with n show ?thesis by (simp add: encode_char_def Let_def)
qed

lemma encode_char_inj:
  assumes "encode_char c @ x = encode_char d @ y"
  shows "c = d \<and> x = y"
proof -
  define n :: nat where "n = of_char c"
  define m :: nat where "m = of_char d"
  have enc: "encode_char c = (if n < 128 then [n] else [192 + n div 64, 128 + n mod 64])"
    "encode_char d = (if m < 128 then [m] else [192 + m div 64, 128 + m mod 64])"
    by (simp_all add: encode_char_def Let_def n_def m_def)
  have "n = m \<and> x = y"
  proof (cases "n < 128")
    case n: True
    show ?thesis
    proof (cases "m < 128")
      case True
      with n assms show ?thesis by (simp add: enc)
    next
      case False
      with n assms have "n = 192 + m div 64" by (simp add: enc)
      with n show ?thesis by simp
    qed
  next
    case n: False
    show ?thesis
    proof (cases "m < 128")
      case True
      with n assms have "m = 192 + n div 64" by (simp add: enc)
      with True show ?thesis by simp
    next
      case False
      with n assms have "n div 64 = m div 64" "n mod 64 = m mod 64" "x = y"
        by (simp_all add: enc)
      moreover have "n = 64 * (n div 64) + n mod 64" "m = 64 * (m div 64) + m mod 64"
        by simp_all
      ultimately show ?thesis by metis
    qed
  qed
  then show ?thesis by (simp add: n_def m_def)
qed

lemma encode_nat_inj: "concat (map encode_char s) = concat (map encode_char s') \<Longrightarrow> s = s'"
proof (induction s arbitrary: s')
  case Nil
  then show ?case by (cases s') (auto simp: encode_char_def Let_def split: if_splits)
next
  case (Cons c s)
  show ?case
  proof (cases s')
    case Nil
    with Cons.prems show ?thesis by (auto simp: encode_char_def Let_def split: if_splits)
  next
    case (Cons d t)
    with Cons.prems
    have "encode_char c @ concat (map encode_char s) = encode_char d @ concat (map encode_char t)"
      by simp
    then have "c = d \<and> concat (map encode_char s) = concat (map encode_char t)"
      by (rule encode_char_inj)
    with Cons.IH Cons show ?thesis by simp
  qed
qed

lemma encode_utf8_inj: "encode_utf8 s = encode_utf8 s' \<longleftrightarrow> s = s'"
proof
  assume eq: "encode_utf8 s = encode_utf8 s'"
  have small: "\<forall>n \<in> set (concat (map encode_char u)). n < 256" for u
    using encode_char_bytes by auto
  have round_trip: "map unat (map (of_nat :: nat \<Rightarrow> 8 word) ns) = ns" if "\<forall>n \<in> set ns. n < 256" for ns
    using that by (induction ns) (simp_all add: unat_of_nat)
  from eq have "map unat (encode_utf8 s) = map unat (encode_utf8 s')" by simp
  then have "concat (map encode_char s) = concat (map encode_char s')"
    unfolding encode_utf8_def by (simp only: round_trip [OF small])
  then show "s = s'" by (rule encode_nat_inj)
qed simp

text \<open>
  C1 (as amended). Equal tuples get the identical fingerprint. The fingerprint is the
  MD5 digest, 32 hexadecimal digits, of the UTF-8 bytes of the four arguments joined by
  \<open>|\<close>; so two tuples with the same joined string get the identical fingerprint, and
  two tuples with different joined strings are digested from different bytes. When the
  text, the target language and the style of both tuples are free of \<open>|\<close>, the joined
  strings of two tuples are equal only if the tuples are equal componentwise.
\<close>

theorem get_cache_key_fingerprint:
  "(t1 = t2 \<and> l1 = l2 \<and> s1 = s2 \<and> c1 = c2 \<longrightarrow>
      get_cache_key t1 l1 s1 c1 = get_cache_key t2 l2 s2 c2)
   \<and> get_cache_key t1 l1 s1 c1
      = md5_hexdigest (encode_utf8 (t1 @ ''|'' @ l1 @ ''|'' @ s1 @ ''|'' @ c1))
   \<and> length (get_cache_key t1 l1 s1 c1) = 32
   \<and> set (get_cache_key t1 l1 s1 c1) \<subseteq> set ''0123456789abcdef''
   \<and> (t1 @ ''|'' @ l1 @ ''|'' @ s1 @ ''|'' @ c1 = t2 @ ''|'' @ l2 @ ''|'' @ s2 @ ''|'' @ c2
       \<longrightarrow> get_cache_key t1 l1 s1 c1 = get_cache_key t2 l2 s2 c2)
   \<and> (encode_utf8 (t1 @ ''|'' @ l1 @ ''|'' @ s1 @ ''|'' @ c1)
        = encode_utf8 (t2 @ ''|'' @ l2 @ ''|'' @ s2 @ ''|'' @ c2)
       \<longleftrightarrow> t1 @ ''|'' @ l1 @ ''|'' @ s1 @ ''|'' @ c1 = t2 @ ''|'' @ l2 @ ''|'' @ s2 @ ''|'' @ c2)
   \<and> (CHR ''|'' \<notin> set (t1 @ l1 @ s1 @ t2 @ l2 @ s2) \<longrightarrow>
      (t1 @ ''|'' @ l1 @ ''|'' @ s1 @ ''|'' @ c1 = t2 @ ''|'' @ l2 @ ''|'' @ s2 @ ''|'' @ c2
       \<longleftrightarrow> t1 = t2 \<and> l1 = l2 \<and> s1 = s2 \<and> c1 = c2))"
proof -
  have key: "get_cache_key t l s c
      = md5_hexdigest (encode_utf8 (t @ ''|'' @ l @ ''|'' @ s @ ''|'' @ c))" for t l s c
    by (simp only: get_cache_key_def Let_def)
  have digits: "length (get_cache_key t1 l1 s1 c1) = 32"
    "set (get_cache_key t1 l1 s1 c1) \<subseteq> set ''0123456789abcdef''"
    using md5_hexdigest_digits by (simp_all only: key)
  have same: "get_cache_key t1 l1 s1 c1 = get_cache_key t2 l2 s2 c2"
    if "t1 @ ''|'' @ l1 @ ''|'' @ s1 @ ''|'' @ c1 = t2 @ ''|'' @ l2 @ ''|'' @ s2 @ ''|'' @ c2"
    using that by (simp only: key)
  have free: "t1 @ ''|'' @ l1 @ ''|'' @ s1 @ ''|'' @ c1 = t2 @ ''|'' @ l2 @ ''|'' @ s2 @ ''|'' @ c2
       \<longleftrightarrow> t1 = t2 \<and> l1 = l2 \<and> s1 = s2 \<and> c1 = c2"
    if "CHR ''|'' \<notin> set (t1 @ l1 @ s1 @ t2 @ l2 @ s2)"
    using that by (rule joined_inj)
  show ?thesis
    by (intro conjI impI digits key encode_utf8_inj) (simp, erule same, erule free)
qed

theorem get_cache_key_fingerprint_witness:
  "get_cache_key ''Pay now'' ''Spanish'' ''formal'' ''Billing''
     = ''d993f284a27ecadaf51dafde57540329''
   \<and> get_cache_key ''Pay now'' ''French'' ''formal'' ''Billing''
     = ''3f3edf3732d5528f27440a7b97e56deb''
   \<and> CHR ''|'' \<notin> set (''Pay now'' @ ''Spanish'' @ ''formal'' @ ''Pay now'' @ ''French'' @ ''formal'')
   \<and> ''Pay now'' @ ''|'' @ ''Spanish'' @ ''|'' @ ''formal'' @ ''|'' @ ''Billing''
     \<noteq> ''Pay now'' @ ''|'' @ ''French'' @ ''|'' @ ''formal'' @ ''|'' @ ''Billing''"
proof -
  have d1: "md5_hexdigest (encode_utf8 ''Pay now|Spanish|formal|Billing'')
            = ''d993f284a27ecadaf51dafde57540329''"
    by code_simp
  have d2: "md5_hexdigest (encode_utf8 ''Pay now|French|formal|Billing'')
            = ''3f3edf3732d5528f27440a7b97e56deb''"
    by code_simp
  from get_cache_key_fingerprint
    [of "''Pay now''" "''Pay now''" "''Spanish''" "''French''" "''formal''" "''formal''"
        "''Billing''" "''Billing''"]
    get_cache_key_fingerprint
    [of "''Pay now''" "''Pay now''" "''French''" "''Spanish''" "''formal''" "''formal''"
        "''Billing''" "''Billing''"]
  show ?thesis by (simp add: d1 d2)
qed

text \<open>
  C1 (as stated) fails: the tuples \<open>(a|b, c, formal, )\<close> and \<open>(a, b|c, formal, )\<close> differ
  in the text and in the target language, and get the identical fingerprint.
\<close>

theorem get_cache_key_fingerprint_counterexample:
  "''a|b'' \<noteq> ''a'' \<and> ''c'' \<noteq> ''b|c''
   \<and> get_cache_key ''a|b'' ''c'' ''formal'' '''' = get_cache_key ''a'' ''b|c'' ''formal'' ''''
   \<and> get_cache_key ''a|b'' ''c'' ''formal'' '''' = ''e36ffcf2659d279d3c87fa03b62cca26''"
proof -
  have "get_cache_key ''a|b'' ''c'' ''formal'' '''' = ''e36ffcf2659d279d3c87fa03b62cca26''"
    by code_simp
  then show ?thesis by (simp add: get_cache_key_def)
qed

section \<open>Properties of the export\<close>

lemma dict_set_new: "key \<notin> fst ` set d \<Longrightarrow> dict_set d key v = d @ [(key, v)]"
  by (induction d) auto

lemma load_loop_distinct:
  "distinct (map fst raw) \<Longrightarrow> fst ` set raw \<inter> fst ` set acc = {} \<Longrightarrow>
   load_loop raw acc = acc @ map (\<lambda>(key, v). (key, parse_entry key v)) raw"
proof (induction raw arbitrary: acc)
  case Nil
  show ?case by simp
next
  case (Cons e raw)
  obtain key v where e: "e = (key, v)" by (cases e)
  from Cons.prems have new: "key \<notin> fst ` set acc" by (auto simp: e)
  from Cons.prems have d: "distinct (map fst raw)" by simp
  from Cons.prems have "fst ` set raw \<inter> fst ` set (acc @ [(key, parse_entry key v)]) = {}"
    by (auto simp: e)
  from Cons.IH [OF d this] show ?case
    by (simp add: e dict_set_new [OF new])
qed

lemma export_originals_distinct:
  "distinct (map fst ld) \<Longrightarrow> fst ` set ld \<inter> fst ` set acc = {} \<Longrightarrow>
   export_originals ld [] lang acc = acc @ map (\<lambda>(key, e). (key, entry_text e)) ld"
proof (induction ld arbitrary: acc)
  case Nil
  show ?case by simp
next
  case (Cons p ld)
  obtain key e where p: "p = (key, e)" by (cases p)
  from Cons.prems have new: "key \<notin> fst ` set acc" by (auto simp: p)
  from Cons.prems have d: "distinct (map fst ld)" by simp
  from Cons.prems have "fst ` set ld \<inter> fst ` set (acc @ [(key, entry_text e)]) = {}"
    by (auto simp: p)
  from Cons.IH [OF d this] show ?case
    by (simp add: p dict_set_new [OF new])
qed

text \<open>
  C4 (as amended). For a loaded mapping that is not empty (a dictionary: no key
  twice), no translation at all, a path chosen in the file dialog and a file that can be
  written, the exported dictionary is the original one: the same keys in the same order,
  each with its original value. For an empty mapping nothing is exported.
\<close>

theorem export_file_roundtrip:
  assumes "distinct (map fst raw_data)" and "raw_data \<noteq> []" and "file_path \<noteq> []"
  shows "export_file (load_file raw_data) [] current_lang file_path None = Exported raw_data
    \<and> export_file (load_file []) [] current_lang file_path None = NoSourceFile"
proof -
  have loaded: "load_file raw_data = map (\<lambda>(key, v). (key, parse_entry key v)) raw_data"
    using load_loop_distinct [OF assms(1), of "[]"] by (simp add: load_file_def)
  have keys: "map fst (load_file raw_data) = map fst raw_data"
    by (simp add: loaded case_prod_unfold comp_def)
  have nonempty: "load_file raw_data \<noteq> []"
    using assms(2) by (simp add: loaded)
  have "export_originals (load_file raw_data) [] current_lang []
        = map (\<lambda>(key, e). (key, entry_text e)) (load_file raw_data)"
    using export_originals_distinct [of "load_file raw_data" "[]" current_lang] assms(1)
    by (simp add: keys)
  also have "\<dots> = raw_data"
    by (simp add: loaded case_prod_unfold comp_def parse_entry_def)
  finally have "export_file (load_file raw_data) [] current_lang file_path None
                = Exported raw_data"
    using nonempty assms(3) by (simp add: export_file_def)
  moreover have "export_file (load_file []) [] current_lang file_path None = NoSourceFile"
    by (simp add: export_file_def load_file_def)
  ultimately show ?thesis by simp
qed

theorem export_file_roundtrip_witness:
  "distinct (map fst [('''dialog(topic.Billing).Card.1.text'', ''Pay now''), (''b'', ''Bye'')])
   \<and> export_file
        (load_file [('''dialog(topic.Billing).Card.1.text'', ''Pay now''), (''b'', ''Bye'')])
        [] ''Spanish'' ''out.json'' None
      = Exported [('''dialog(topic.Billing).Card.1.text'', ''Pay now''), (''b'', ''Bye'')]"
  using export_file_roundtrip
    [of "[('''dialog(topic.Billing).Card.1.text'', ''Pay now''), (''b'', ''Bye'')]"
        "''out.json''" "''Spanish''"]
  by simp

text \<open>
  C4 (as stated) fails: after loading a file that holds the empty mapping, the export
  shows the warning that no source file is loaded and writes no mapping at all, where
  the original mapping is the empty one.
\<close>

theorem export_file_roundtrip_counterexample:
  "load_file [] = []
   \<and> export_file (load_file []) [] ''Spanish'' ''out.json'' None = NoSourceFile
   \<and> export_file (load_file []) [] ''Spanish'' ''out.json'' None \<noteq> Exported []"
  by (simp add: export_file_def load_file_def)

section \<open>Properties of the key classification\<close>

lemma endswith_suffix: "endswith key s = suffix s key"
  by (simp add: endswith_def suffix_to_prefix)

lemma sublist_map_iff: "sublist s (map f key) \<longleftrightarrow> (\<exists>w. sublist w key \<and> map f w = s)"
proof
  assume "sublist s (map f key)"
  then obtain ps ss where "map f key = ps @ s @ ss" by (auto simp: sublist_def)
  then obtain us vs where us: "key = us @ vs" "ps = map f us" "s @ ss = map f vs"
    unfolding map_eq_append_conv by blast
  from us(3) obtain b c where bc: "vs = b @ c" "s = map f b" "ss = map f c"
    unfolding append_eq_map_conv by blast
  have "sublist b key" unfolding sublist_def us(1) bc(1) by blast
  with bc(2) show "\<exists>w. sublist w key \<and> map f w = s" by blast
next
  assume "\<exists>w. sublist w key \<and> map f w = s"
  then obtain w ps ss where "key = ps @ w @ ss" "map f w = s" by (auto simp: sublist_def)
  then have "map f key = map f ps @ s @ map f ss" by simp
  then show "sublist s (map f key)" unfolding sublist_def by blast
qed

lemma sublist_lower: "sublist s (lower key) = contains_ignoring_case s key"
  by (simp add: lower_def sublist_map_iff contains_ignoring_case_def)

text \<open>
  C6. \<open>extract_ui_component\<close> returns what the first applicable of the six rules gives,
  in their order: the six literal segments, the global-variable marker, the two
  case-insensitive knowledge-source tests, the dialog display name, and \<open>Unknown\<close>.
\<close>

theorem extract_ui_component_precedence:
  "extract_ui_component key = ui_component_by_rules key"
  by (simp add: extract_ui_component_def ui_component_by_rules_def components_def
        contains_sublist sublist_lower endswith_suffix Let_def)

theorem extract_ui_component_precedence_witness:
  "ui_component_by_rules '''dialog(a.topic.Foo).Entity.DisplayName'' = ''Entity''
   \<and> ui_component_by_rules '''dialog(a.topic.Foo).DisplayName'' = ''DialogDisplayName''
   \<and> ui_component_by_rules '''globalVariable(a.KnowledgeBase.x)'' = ''GlobalVariable''
   \<and> ui_component_by_rules ''a.KnowledgeBase.x'' = ''KnowledgeSource''
   \<and> ui_component_by_rules ''KnowledgeSourceComponent(x).KnowledgeBase.y''
       = ''KnowledgeSourceComponent''
   \<and> ui_component_by_rules ''a.b'' = ''Unknown''"
  by (simp add: extract_ui_component_precedence [symmetric] extract_ui_component_def
        components_def endswith_def lower_def lower_char_def latin1_capitals_def
        latin1_smalls_def)

lemma try_down_total:
  "try_down (\<lambda>n. Some (h n)) lo k = (if lo \<le> k then Some (h k) else None)"
  by (cases k) auto

lemma re_match_group:
  "re_match [GroupPlus p] s g =
     (if takeWhile p s \<noteq> [] then Some (takeWhile p s, dropWhile p s) else None)"
  by (simp add: try_down_total takeWhile_eq_take [symmetric] dropWhile_eq_drop [symmetric]
        Suc_le_eq)

lemma re_match_lit_group:
  "re_match [Lit l, GroupPlus p] s g =
     (if prefix l s \<and> takeWhile p (drop (length l) s) \<noteq> []
      then Some (takeWhile p (drop (length l) s), dropWhile p (drop (length l) s))
      else None)"
  by (simp only: re_match.simps(2) re_match_group) simp

lemma prefix_overlap:
  assumes "prefix (l @ [x]) (a @ l @ x # r)" and "a \<noteq> []"
  shows "prefix (l @ [x]) (a @ l)"
proof -
  have "prefix (l @ [x]) ((a @ l) @ x # r)" using assms(1) by simp
  then consider "prefix (l @ [x]) (a @ l)" | us where "l @ [x] = (a @ l) @ us"
    by (auto simp: prefix_append)
  then show ?thesis
  proof cases
    case 1
    then show ?thesis .
  next
    case 2
    then have "length (l @ [x]) = length ((a @ l) @ us)" by (simp only:)
    then have "us = []" using assms(2) by (cases a) auto
    with 2 show ?thesis by simp
  qed
qed

lemma re_search_skip:
  assumes "\<And>s. m s \<noteq> None \<Longrightarrow> prefix (l @ [x]) s"
    and "\<not> sublist (l @ [x]) (pre @ l)"
  shows "re_search m (pre @ l @ x # r) = re_search m (l @ x # r)"
  using assms(2)
proof (induction pre)
  case Nil
  show ?case by simp
next
  case (Cons c pre)
  have "\<not> prefix (l @ [x]) ((c # pre) @ l @ x # r)"
  proof
    assume "prefix (l @ [x]) ((c # pre) @ l @ x # r)"
    then have "prefix (l @ [x]) ((c # pre) @ l)" by (rule prefix_overlap) simp
    then have "sublist (l @ [x]) ((c # pre) @ l)" by (rule prefix_imp_sublist)
    with Cons.prems show False by simp
  qed
  then have none: "m (c # pre @ l @ x # r) = None" using assms(1) by fastforce
  from Cons.prems have "\<not> sublist (l @ [x]) (pre @ l)"
    by (simp add: sublist_Cons_right)
  from Cons.IH [OF this] show ?case by (simp add: none)
qed

lemma search_group_topic:
  assumes "\<not> sublist ''topic.'' (pre @ ''topic'')"
    and "name \<noteq> []" and "\<forall>c \<in> set name. not_quote_dot c"
    and "rest = [] \<or> \<not> not_quote_dot (hd rest)"
  shows "search_group [Lit ''topic.'', GroupPlus not_quote_dot] (pre @ ''topic.'' @ name @ rest)
         = Some name"
proof -
  define m where
    "m = (\<lambda>s. map_option fst (re_match [Lit ''topic.'', GroupPlus not_quote_dot] s []))"
  have run: "takeWhile not_quote_dot (name @ rest) = name"
  proof (cases rest)
    case Nil
    then show ?thesis using assms(3) by simp
  next
    case (Cons c cs)
    with assms(4) have "\<not> not_quote_dot c" by simp
    then show ?thesis using assms(3) Cons by (simp add: takeWhile_tail)
  qed
  have "re_match [Lit ''topic.'', GroupPlus not_quote_dot] (''topic.'' @ name @ rest) []
        = Some (name, dropWhile not_quote_dot (name @ rest))"
    using assms(2) by (simp only: re_match_lit_group) (simp add: run)
  then have here: "m (''topic.'' @ name @ rest) = Some name"
    by (simp only: m_def) simp
  have pre: "prefix (''topic'' @ [CHR ''.'']) s" if "m s \<noteq> None" for s
  proof (rule ccontr)
    assume "\<not> prefix (''topic'' @ [CHR ''.'']) s"
    then have "\<not> prefix ''topic.'' s" by simp
    then have "re_match [Lit ''topic.'', GroupPlus not_quote_dot] s [] = None"
      by (simp only: re_match_lit_group) simp
    with that show False by (simp only: m_def) simp
  qed
  have first: "\<not> sublist (''topic'' @ [CHR ''.'']) (pre @ ''topic'')"
    using assms(1) by simp
  have "re_search m (pre @ ''topic'' @ CHR ''.'' # name @ rest)
        = re_search m (''topic'' @ CHR ''.'' # name @ rest)"
    using pre first by (rule re_search_skip)
  also have "\<dots> = Some name" using here by simp
  finally have "re_search m (pre @ ''topic.'' @ name @ rest) = Some name" by simp
  then show ?thesis by (simp only: search_group_def m_def)
qed

lemma clean_topic_map:
  "clean_topic name = map (\<lambda>c. if c = CHR ''_'' \<or> c = CHR ''-'' then CHR '' '' else c) name"
  by (simp add: clean_topic_def replace_char_def)

lemma upper_not_lower: "is_upper c \<Longrightarrow> \<not> is_lower c"
  by (auto simp: is_upper_def is_lower_def)

lemma spaced_camel_case_Cons:
  "\<not> is_lower b \<Longrightarrow> spaced_camel_case (b # cs) = b # spaced_camel_case cs"
  by (cases cs) simp_all

lemma camel_split_spaced: "camel_split s = spaced_camel_case s"
proof (induction s rule: camel_split.induct)
  case (1 a b cs)
  show ?case
  proof (cases "is_lower a \<and> is_upper b")
    case True
    then have "\<not> is_lower b" by (simp add: upper_not_lower)
    then have "spaced_camel_case (b # cs) = b # spaced_camel_case cs"
      by (rule spaced_camel_case_Cons)
    then show ?thesis using True 1(1) by simp
  next
    case False
    then show ?thesis using 1(2) by auto
  qed
qed simp_all

lemma format_word_rules: "format_word w = word_by_rules w"
proof (cases w)
  case Nil
  then show ?thesis by (simp add: format_word_def word_by_rules_def upper_def lower_def)
next
  case (Cons c cs)
  then show ?thesis by (cases cs) (simp_all add: format_word_def word_by_rules_def)
qed

lemma format_topic_name_rules: "format_topic_name (clean_topic name) = topic_by_rules name"
proof -
  have "format_word = word_by_rules"
    by (rule ext) (rule format_word_rules)
  then show ?thesis
    by (simp add: format_topic_name_def topic_by_rules_def clean_topic_map camel_split_spaced)
qed

text \<open>
  C8 (as amended). On a key that one of the ordered patterns matches, the topic is the
  name the first such pattern captures, after the cleanup; on a key that none matches it
  is \<open>Global Variables\<close> when the key has the global-variable marker and
  \<open>Unknown Topic\<close> otherwise. In particular, when the first \<open>topic.\<close> of the key is
  followed by a name without apostrophe, dot or closing parenthesis, and the name ends
  at an apostrophe, at a dot or at the end of the key, the topic is that name after the
  cleanup.
\<close>

theorem extract_topic_cleanup:
  "extract_topic key =
     (case first_topic_match topic_patterns key of
        Some name \<Rightarrow> topic_by_rules name
      | None \<Rightarrow>
          if sublist '''globalVariable('' key then ''Global Variables'' else ''Unknown Topic'')
   \<and> (\<forall>pre name rest.
         key = pre @ ''topic.'' @ name @ rest
         \<and> \<not> sublist ''topic.'' (pre @ ''topic'')
         \<and> name \<noteq> []
         \<and> (\<forall>c \<in> set name. c \<noteq> CHR 0x27 \<and> c \<noteq> CHR ''.'' \<and> c \<noteq> CHR '')'')
         \<and> (rest = [] \<or> hd rest = CHR 0x27 \<or> hd rest = CHR ''.'')
         \<longrightarrow> extract_topic key = topic_by_rules name)"
proof -
  have general: "extract_topic key =
     (case first_topic_match topic_patterns key of
        Some name \<Rightarrow> topic_by_rules name
      | None \<Rightarrow>
          if sublist '''globalVariable('' key then ''Global Variables'' else ''Unknown Topic'')"
    by (simp only: extract_topic_def format_topic_name_rules contains_sublist)
  have particular: "extract_topic key = topic_by_rules name"
    if key: "key = pre @ ''topic.'' @ name @ rest"
      and first: "\<not> sublist ''topic.'' (pre @ ''topic'')"
      and name: "name \<noteq> []"
        "\<forall>c \<in> set name. c \<noteq> CHR 0x27 \<and> c \<noteq> CHR ''.'' \<and> c \<noteq> CHR '')''"
      and rest: "rest = [] \<or> hd rest = CHR 0x27 \<or> hd rest = CHR ''.''"
    for pre name rest
  proof -
    have "\<forall>c \<in> set name. not_quote_dot c"
      using name(2) by (simp add: not_quote_dot_def)
    moreover have "rest = [] \<or> \<not> not_quote_dot (hd rest)"
      using rest by (auto simp: not_quote_dot_def)
    ultimately have "search_group [Lit ''topic.'', GroupPlus not_quote_dot] key = Some name"
      unfolding key using first name(1) by (intro search_group_topic)
    then have "first_topic_match topic_patterns key = Some name"
      by (simp only: topic_patterns_def first_topic_match.simps option.case)
    then show ?thesis by (simp only: general option.case)
  qed
  show ?thesis
  proof (intro conjI allI impI)
    show "extract_topic key =
     (case first_topic_match topic_patterns key of
        Some name \<Rightarrow> topic_by_rules name
      | None \<Rightarrow>
          if sublist '''globalVariable('' key then ''Global Variables'' else ''Unknown Topic'')"
      by (rule general)
  next
    fix pre name rest
    assume "key = pre @ ''topic.'' @ name @ rest
         \<and> \<not> sublist ''topic.'' (pre @ ''topic'')
         \<and> name \<noteq> []
         \<and> (\<forall>c \<in> set name. c \<noteq> CHR 0x27 \<and> c \<noteq> CHR ''.'' \<and> c \<noteq> CHR '')'')
         \<and> (rest = [] \<or> hd rest = CHR 0x27 \<or> hd rest = CHR ''.'')"
    then show "extract_topic key = topic_by_rules name"
      by (intro particular [of pre name rest]) (elim conjE, assumption)+
  qed
qed

theorem extract_topic_cleanup_witness:
  "extract_topic ''x.topic.order_statusCheck-ai.text'' = topic_by_rules ''order_statusCheck-ai''
   \<and> extract_topic ''x.topic.order_statusCheck-ai.text'' = ''Order Status Check AI''
   \<and> extract_topic '''globalVariable(a.b)'' = ''Global Variables''
   \<and> extract_topic ''a.b'' = ''Unknown Topic''"
proof -
  have "extract_topic ''x.topic.order_statusCheck-ai.text'' = topic_by_rules ''order_statusCheck-ai''"
    using extract_topic_cleanup [of "''x.topic.order_statusCheck-ai.text''",
        THEN conjunct2, rule_format, of "''x.''" "''order_statusCheck-ai''" "''.text''"]
    by (simp add: sublist_Cons_right)
  moreover have "extract_topic ''x.topic.order_statusCheck-ai.text'' = ''Order Status Check AI''"
    by code_simp
  moreover have "extract_topic '''globalVariable(a.b)'' = ''Global Variables''"
    by code_simp
  moreover have "extract_topic ''a.b'' = ''Unknown Topic''"
    by code_simp
  ultimately show ?thesis by blast
qed

text \<open>
  C8 (as stated) fails: the key \<open>topic.Bar.topic.Foo\<close> contains \<open>topic.Foo\<close>, and its
  topic is \<open>Bar\<close>, the name after the first \<open>topic.\<close> of the key.
\<close>

theorem extract_topic_cleanup_counterexample:
  "sublist ''topic.Foo'' ''topic.Bar.topic.Foo''
   \<and> extract_topic ''topic.Bar.topic.Foo'' = ''Bar''"
  by code_simp

text \<open>
  C9. On the key \<open>'dialog(topic.Billing).Card.1.text\<close> the first topic pattern captures
  \<open>Billing)\<close>, the closing parenthesis included, since its character class excludes
  only the apostrophe and the dot; the topic and the description carry the parenthesis.
  The component is \<open>Card\<close> and the element type \<open>text\<close>. With no client configured and
  an empty cache, \<open>Pay now\<close> is translated to \<open>[FORMAL] Pay now [SPANISH]\<close>.
\<close>

theorem parse_entry_billing:
  "parse_entry '''dialog(topic.Billing).Card.1.text'' ''Pay now'' =
     \<lparr> entry_text = ''Pay now'',
       topic = ''Billing)'',
       entry_context = [(''component'', ''Card''), (''ui_element'', ''text'')],
       ui_component = ''Card'',
       element_type = ''text'',
       description = ''Topic: Billing) | Component: Card'' \<rparr>
   \<and> fst (translate
          \<lparr> client = None, translation_cache = Map.empty, api_calls = 0, slept = [] \<rparr>
          ''Pay now'' ''Spanish'' ''formal'' '''' 3)
       = ''[FORMAL] Pay now [SPANISH]''"
proof -
  have t: "extract_topic '''dialog(topic.Billing).Card.1.text'' = ''Billing)''"
    by code_simp
  have c: "extract_context '''dialog(topic.Billing).Card.1.text''
           = [(''component'', ''Card''), (''ui_element'', ''text'')]"
    by code_simp
  have u: "extract_ui_component '''dialog(topic.Billing).Card.1.text'' = ''Card''"
    by code_simp
  have e: "extract_element_type '''dialog(topic.Billing).Card.1.text'' = ''text''"
    by code_simp
  have d: "generate_description '''dialog(topic.Billing).Card.1.text''
           = ''Topic: Billing) | Component: Card''"
    by (simp add: generate_description_def t c u e)
  have m: "mock_translate ''Pay now'' ''Spanish'' ''formal'' = ''[FORMAL] Pay now [SPANISH]''"
    by code_simp
  show ?thesis
    by (simp add: parse_entry_def t c u e d translate_def m)
qed

section \<open>Properties of the validation of a translation\<close>

lemma dropWhile_all: "(\<forall>x \<in> set (dropWhile P s). P x) \<longleftrightarrow> (\<forall>x \<in> set s. P x)"
proof
  assume all: "\<forall>x \<in> set (dropWhile P s). P x"
  have "dropWhile P s = []"
  proof (rule ccontr)
    assume ne: "dropWhile P s \<noteq> []"
    then have "\<not> P (hd (dropWhile P s))" by (rule hd_dropWhile)
    moreover have "hd (dropWhile P s) \<in> set (dropWhile P s)" using ne by simp
    ultimately show False using all by blast
  qed
  then show "\<forall>x \<in> set s. P x" by (simp add: dropWhile_eq_Nil_conv)
next
  assume "\<forall>x \<in> set s. P x"
  then show "\<forall>x \<in> set (dropWhile P s). P x" by (auto dest: set_dropWhileD)
qed

lemma strip_Nil_iff: "strip s = [] \<longleftrightarrow> (\<forall>c \<in> set s. is_space c)"
proof -
  have "strip s = [] \<longleftrightarrow> (\<forall>x \<in> set (dropWhile is_space s). is_space x)"
    by (simp add: strip_def dropWhile_eq_Nil_conv)
  then show ?thesis by (simp only: dropWhile_all)
qed

lemma try_down_last:
  "\<forall>n. lo \<le> n \<and> n < k \<longrightarrow> f n = None \<Longrightarrow>
   try_down f lo k = (if lo \<le> k then f k else None)"
proof (induction k)
  case 0
  show ?case by simp
next
  case (Suc k)
  show ?case
  proof (cases "f (Suc k)")
    case (Some r)
    then show ?thesis by simp
  next
    case None
    from Suc.prems have lower: "\<forall>n. lo \<le> n \<and> n < k \<longrightarrow> f n = None" by simp
    from Suc.prems have "lo \<le> k \<Longrightarrow> f k = None" by simp
    then have "try_down f lo k = None" using Suc.IH [OF lower] by simp
    then show ?thesis using None by simp
  qed
qed

lemma re_match_placeholder:
  "re_match [Lit ''{'', Plus not_rbrace, Lit ''}''] (c # cs) g =
     (if c = CHR ''{'' \<and> takeWhile not_rbrace cs \<noteq> [] \<and> dropWhile not_rbrace cs \<noteq> []
      then Some (g, tl (dropWhile not_rbrace cs))
      else None)"
proof -
  define f where
    "f = (\<lambda>n. re_match [Lit ''}''] (drop n cs) g)"
  define k where "k = length (takeWhile not_rbrace cs)"
  have fk: "f k = (if dropWhile not_rbrace cs \<noteq> [] then Some (g, tl (dropWhile not_rbrace cs))
                   else None)"
  proof (cases "dropWhile not_rbrace cs")
    case Nil
    have "f k = re_match [Lit ''}''] (dropWhile not_rbrace cs) g"
      by (simp only: f_def k_def dropWhile_eq_drop [symmetric])
    then show ?thesis by (simp only: Nil) simp
  next
    case (Cons d ds)
    then have "\<not> not_rbrace d" by (metis hd_dropWhile list.sel(1) list.distinct(1))
    then have brace: "d = CHR ''}''" by (simp add: not_rbrace_def)
    have "f k = re_match [Lit ''}''] (dropWhile not_rbrace cs) g"
      by (simp only: f_def k_def dropWhile_eq_drop [symmetric])
    then show ?thesis by (simp only: Cons brace) simp
  qed
  have below: "\<forall>n. 1 \<le> n \<and> n < k \<longrightarrow> f n = None"
  proof (intro allI impI)
    fix n assume n: "1 \<le> n \<and> n < k"
    then have lt: "n < length cs"
      using length_takeWhile_le [of not_rbrace cs] by (simp add: k_def)
    from n have "not_rbrace (cs ! n)"
      by (metis k_def nth_length_takeWhile takeWhile_nth nth_mem set_takeWhileD)
    then have "cs ! n \<noteq> CHR ''}''" by (simp add: not_rbrace_def)
    moreover have "drop n cs = cs ! n # drop (Suc n) cs" using lt by (rule Cons_nth_drop_Suc [symmetric])
    ultimately show "f n = None" by (simp add: f_def)
  qed
  have "re_match [Lit ''{'', Plus not_rbrace, Lit ''}''] (c # cs) g
        = (if c = CHR ''{'' then try_down f 1 k else None)"
    by (simp add: f_def k_def)
  also have "\<dots> = (if c = CHR ''{'' then (if 1 \<le> k then f k else None) else None)"
    by (simp only: try_down_last [OF below])
  also have "\<dots> = (if c = CHR ''{'' \<and> takeWhile not_rbrace cs \<noteq> []
                      \<and> dropWhile not_rbrace cs \<noteq> []
      then Some (g, tl (dropWhile not_rbrace cs))
      else None)"
  proof -
    have k1: "1 \<le> k \<longleftrightarrow> takeWhile not_rbrace cs \<noteq> []"
      by (cases "takeWhile not_rbrace cs") (simp_all add: k_def)
    show ?thesis by (simp only: fk k1) auto
  qed
  finally show ?thesis .
qed

text \<open>
  The placeholders, read off the text directly: at an opening brace followed by at
  least one character other than a closing brace and then by a closing brace, the
  placeholder runs from the one brace to the other and the search goes on behind it;
  anywhere else the search goes on at the next character.
\<close>

lemma extract_placeholders_Cons:
  "extract_placeholders (c # cs) =
     (if c = CHR ''{'' \<and> takeWhile not_rbrace cs \<noteq> [] \<and> dropWhile not_rbrace cs \<noteq> []
      then (CHR ''{'' # takeWhile not_rbrace cs @ ''}'')
             # extract_placeholders (tl (dropWhile not_rbrace cs))
      else extract_placeholders cs)"
proof (cases "c = CHR ''{'' \<and> takeWhile not_rbrace cs \<noteq> [] \<and> dropWhile not_rbrace cs \<noteq> []")
  case False
  then have no: "(c = CHR ''{'' \<and> takeWhile not_rbrace cs \<noteq> []
                  \<and> dropWhile not_rbrace cs \<noteq> []) = False"
    by simp
  show ?thesis
    by (simp only: extract_placeholders_def findall.simps re_match_placeholder no if_False
          option.case)
next
  case True
  then obtain d ds where d: "dropWhile not_rbrace cs = d # ds"
    by (cases "dropWhile not_rbrace cs") simp_all
  then have "\<not> not_rbrace d" by (metis hd_dropWhile list.sel(1) list.distinct(1))
  then have brace: "d = CHR ''}''" by (simp add: not_rbrace_def)
  have cs: "cs = takeWhile not_rbrace cs @ CHR ''}'' # ds"
    using takeWhile_dropWhile_id [of not_rbrace cs] by (simp add: d brace)
  have len: "length cs = length (takeWhile not_rbrace cs) + Suc (length ds)"
    by (subst cs) simp
  have piece: "take (Suc (length cs) - length ds) (c # cs)
               = CHR ''{'' # takeWhile not_rbrace cs @ ''}''"
  proof -
    have "Suc (length cs) - length ds = Suc (Suc (length (takeWhile not_rbrace cs)))"
      using len by simp
    moreover have "take (Suc (length (takeWhile not_rbrace cs))) cs
                   = takeWhile not_rbrace cs @ ''}''"
      by (subst (2) cs) simp
    ultimately show ?thesis using True by simp
  qed
  have fits: "(length ds \<le> length cs) = True" using len by simp
  from True have yes: "(c = CHR ''{'' \<and> takeWhile not_rbrace cs \<noteq> []
                  \<and> dropWhile not_rbrace cs \<noteq> []) = True"
    by simp
  have m: "re_match [Lit ''{'', Plus not_rbrace, Lit ''}''] (c # cs) [] = Some ([], ds)"
    using True by (simp add: re_match_placeholder d del: re_match.simps)
  have lhs: "extract_placeholders (c # cs)
             = (CHR ''{'' # takeWhile not_rbrace cs @ ''}'') # extract_placeholders ds"
    by (simp only: extract_placeholders_def findall.simps m option.case prod.case fits
          if_True piece)
  have rhs: "(if c = CHR ''{'' \<and> takeWhile not_rbrace cs \<noteq> []
                 \<and> dropWhile not_rbrace cs \<noteq> []
              then (CHR ''{'' # takeWhile not_rbrace cs @ ''}'')
                     # extract_placeholders (tl (dropWhile not_rbrace cs))
              else extract_placeholders cs)
             = (CHR ''{'' # takeWhile not_rbrace cs @ ''}'') # extract_placeholders ds"
    by (simp only: yes if_True) (simp only: d list.sel)
  show ?thesis by (simp only: lhs rhs)
qed

lemma extract_placeholders_form:
  "x \<in> set (extract_placeholders s) \<Longrightarrow>
   sublist x s \<and> (\<exists>run. x = ''{'' @ run @ ''}'' \<and> run \<noteq> [] \<and> CHR ''}'' \<notin> set run)"
proof (induction s rule: length_induct)
  case (1 s)
  show ?case
  proof (cases s)
    case Nil
    with 1(2) show ?thesis by (simp add: extract_placeholders_def)
  next
    case (Cons c cs)
    show ?thesis
    proof (cases "c = CHR ''{'' \<and> takeWhile not_rbrace cs \<noteq> []
                  \<and> dropWhile not_rbrace cs \<noteq> []")
      case False
      then have no: "(c = CHR ''{'' \<and> takeWhile not_rbrace cs \<noteq> []
                  \<and> dropWhile not_rbrace cs \<noteq> []) = False"
        by simp
      have "extract_placeholders s = extract_placeholders cs"
        by (simp only: Cons extract_placeholders_Cons no if_False)
      with 1(2) have "x \<in> set (extract_placeholders cs)" by simp
      moreover have "length cs < length s" by (simp add: Cons)
      ultimately have "sublist x cs
          \<and> (\<exists>run. x = ''{'' @ run @ ''}'' \<and> run \<noteq> [] \<and> CHR ''}'' \<notin> set run)"
        using 1(1) by blast
      then show ?thesis by (auto simp: Cons sublist_Cons_right)
    next
      case True
      then obtain d ds where d: "dropWhile not_rbrace cs = d # ds"
        by (cases "dropWhile not_rbrace cs") simp_all
      then have "\<not> not_rbrace d" by (metis hd_dropWhile list.sel(1) list.distinct(1))
      then have brace: "d = CHR ''}''" by (simp add: not_rbrace_def)
      have cs: "cs = takeWhile not_rbrace cs @ CHR ''}'' # ds"
        using takeWhile_dropWhile_id [of not_rbrace cs] by (simp add: d brace)
      from True have yes: "(c = CHR ''{'' \<and> takeWhile not_rbrace cs \<noteq> []
                  \<and> dropWhile not_rbrace cs \<noteq> []) = True"
        by simp
      have "extract_placeholders (c # cs)
            = (CHR ''{'' # takeWhile not_rbrace cs @ ''}'')
                # extract_placeholders (tl (dropWhile not_rbrace cs))"
        by (simp only: extract_placeholders_Cons yes if_True)
      then have "extract_placeholders s
            = (CHR ''{'' # takeWhile not_rbrace cs @ ''}'') # extract_placeholders ds"
        by (simp only: Cons d list.sel)
      with 1(2)
      have "x = CHR ''{'' # takeWhile not_rbrace cs @ ''}'' \<or> x \<in> set (extract_placeholders ds)"
        by simp
      then show ?thesis
      proof
        assume x: "x = CHR ''{'' # takeWhile not_rbrace cs @ ''}''"
        have "s = x @ ds" by (subst Cons, subst cs) (simp add: x True)
        then have "sublist x s" by (metis append_Nil sublist_appendI)
        moreover have "CHR ''}'' \<notin> set (takeWhile not_rbrace cs)"
          by (auto dest: set_takeWhileD simp: not_rbrace_def)
        ultimately show ?thesis using True x by auto
      next
        assume "x \<in> set (extract_placeholders ds)"
        moreover have "length ds < length s"
          by (subst Cons, subst cs) simp
        ultimately have inner: "sublist x ds
          \<and> (\<exists>run. x = ''{'' @ run @ ''}'' \<and> run \<noteq> [] \<and> CHR ''}'' \<notin> set run)"
          using 1(1) by blast
        have "s = (c # takeWhile not_rbrace cs @ ''}'') @ ds"
          by (subst Cons, subst cs) simp
        then have "sublist ds s" by (metis append_Nil2 sublist_appendI)
        moreover from inner have "sublist x ds" ..
        ultimately have "sublist x s" by (rule sublist_order.order_trans [rotated])
        with inner show ?thesis by blast
      qed
    qed
  qed
qed

text \<open>
  The floats of the scores: \<open>1.0 - 0.2\<close> is the float \<open>0.8\<close>, and \<open>1.0 - 0.2 - 0.1\<close>
  is \<open>0.7000000000000001\<close>, the float next above \<open>0.7\<close>.
\<close>

lemma float_scores:
  "fsub 1 (float_literal (2 / 10)) = 3602879701896397 / 4503599627370496"
  "float_literal (8 / 10) = 3602879701896397 / 4503599627370496"
  "fsub (fsub 1 (float_literal (2 / 10))) (float_literal (1 / 10))
     = 6305039478318695 / 9007199254740992"
  "float_literal (7 / 10) = 3152519739159347 / 4503599627370496"
  by code_simp+

lemma validate_translation_two_deductions:
  "validate_translation ''{a}'' ''abcdefghijkl'' ''Spanish'' =
     \<lparr> is_valid = True,
       warnings = [PlaceholderMismatch [''{a}''] [], UnusualLengthRatio 4],
       errors = [],
       score = 6305039478318695 / 9007199254740992 \<rparr>"
  by code_simp

lemma validate_translation_no_break_space:
  "validate_translation ''x'' [CHR 0xA0] ''Spanish'' =
     \<lparr> is_valid = False, warnings = [], errors = [''Translation is empty''], score = 0 \<rparr>"
  by code_simp

lemma float_literal_3_10: "\<not> 1 < float_literal (3 / 10)"
  by code_simp

lemma deducted_mismatch_values:
  "max 0 (deduct False (3 / 10) (deduct False (1 / 10) (deduct True (2 / 10) 1)))
   \<le> float_literal (8 / 10)"
  "max 0 (deduct False (3 / 10) (deduct True (1 / 10) (deduct True (2 / 10) 1)))
   \<le> float_literal (8 / 10)"
  "max 0 (deduct True (3 / 10) (deduct False (1 / 10) (deduct True (2 / 10) 1)))
   \<le> float_literal (8 / 10)"
  "max 0 (deduct True (3 / 10) (deduct True (1 / 10) (deduct True (2 / 10) 1)))
   \<le> float_literal (8 / 10)"
  by code_simp+

lemma deducted_mismatch_le:
  "max 0 (deduct unchanged (3 / 10) (deduct ratio (1 / 10) (deduct True (2 / 10) 1)))
   \<le> float_literal (8 / 10)"
  using deducted_mismatch_values by (cases unchanged; cases ratio; simp)

text \<open>
  C2 (as amended). For a translation that is not blank and does not start with
  \<open>[ERROR:\<close>, the result is valid and has no error; it has a placeholder-mismatch warning
  exactly when the list of the placeholders of the original, in their order and with
  repetitions, differs from the list of the placeholders of the translation, and the
  warning carries the two lists; and the score is the float 1.0 after one subtraction of
  floats for every deduction that applies, in this order: 0.2 for the mismatch, 0.1 for
  a length ratio above 3 or below 0.3, 0.3 for a translation equal to the original up to
  case. With the mismatch the score is at most the float 0.8.
\<close>

theorem validate_translation_placeholders:
  assumes "\<not> (\<forall>c \<in> set translated. is_space c)"
    and "\<not> prefix ''[ERROR:'' translated"
  shows "is_valid (validate_translation original translated target_language)
    \<and> errors (validate_translation original translated target_language) = []
    \<and> ((\<exists>a b. PlaceholderMismatch a b
           \<in> set (warnings (validate_translation original translated target_language)))
        \<longleftrightarrow> extract_placeholders original \<noteq> extract_placeholders translated)
    \<and> (extract_placeholders original \<noteq> extract_placeholders translated \<longrightarrow>
          PlaceholderMismatch (extract_placeholders original) (extract_placeholders translated)
            \<in> set (warnings (validate_translation original translated target_language))
          \<and> score (validate_translation original translated target_language)
              \<le> float_literal (8 / 10))
    \<and> score (validate_translation original translated target_language) =
        max 0
          (deduct (lower original = lower translated) (3 / 10)
            (deduct
              (length original > 0
               \<and> (fdiv (rat_of_nat (length translated)) (rat_of_nat (length original)) > 3
                  \<or> fdiv (rat_of_nat (length translated)) (rat_of_nat (length original))
                      < float_literal (3 / 10)))
              (1 / 10)
              (deduct (extract_placeholders original \<noteq> extract_placeholders translated)
                 (2 / 10) 1)))"
proof -
  from assms(1) have blank: "strip translated \<noteq> []" "translated \<noteq> []"
    by (auto simp: strip_Nil_iff)
  from assms(2) have sentinel: "\<not> startswith translated ''[ERROR:''"
    by (simp add: startswith_def)
  have main: "is_valid (validate_translation original translated target_language)
    \<and> errors (validate_translation original translated target_language) = []
    \<and> ((\<exists>a b. PlaceholderMismatch a b
           \<in> set (warnings (validate_translation original translated target_language)))
        \<longleftrightarrow> extract_placeholders original \<noteq> extract_placeholders translated)
    \<and> (extract_placeholders original \<noteq> extract_placeholders translated \<longrightarrow>
          PlaceholderMismatch (extract_placeholders original) (extract_placeholders translated)
            \<in> set (warnings (validate_translation original translated target_language)))
    \<and> score (validate_translation original translated target_language) =
        max 0
          (deduct (lower original = lower translated) (3 / 10)
            (deduct
              (length original > 0
               \<and> (fdiv (rat_of_nat (length translated)) (rat_of_nat (length original)) > 3
                  \<or> fdiv (rat_of_nat (length translated)) (rat_of_nat (length original))
                      < float_literal (3 / 10)))
              (1 / 10)
              (deduct (extract_placeholders original \<noteq> extract_placeholders translated)
                 (2 / 10) 1)))"
    unfolding validate_translation_def Let_def deduct_def
    using blank sentinel float_literal_3_10 by simp
  have "score (validate_translation original translated target_language)
        \<le> float_literal (8 / 10)"
    if "extract_placeholders original \<noteq> extract_placeholders translated"
  proof -
    from main that
    have "score (validate_translation original translated target_language) =
        max 0
          (deduct (lower original = lower translated) (3 / 10)
            (deduct
              (length original > 0
               \<and> (fdiv (rat_of_nat (length translated)) (rat_of_nat (length original)) > 3
                  \<or> fdiv (rat_of_nat (length translated)) (rat_of_nat (length original))
                      < float_literal (3 / 10)))
              (1 / 10)
              (deduct True (2 / 10) 1)))"
      by simp
    then show ?thesis by (simp only: deducted_mismatch_le)
  qed
  with main show ?thesis by blast
qed

theorem validate_translation_placeholders_witness:
  "warnings (validate_translation ''Click {button} now'' ''Click now'' ''Spanish'')
     = [PlaceholderMismatch [''{button}''] []]
   \<and> score (validate_translation ''Click {button} now'' ''Click now'' ''Spanish'')
       = 3602879701896397 / 4503599627370496
   \<and> score (validate_translation ''Click {button} now'' ''Click now'' ''Spanish'')
       \<le> float_literal (8 / 10)
   \<and> is_valid (validate_translation ''Click {button} now'' ''Click now'' ''Spanish'')"
proof -
  have p: "extract_placeholders ''Click {button} now'' = [''{button}'']"
    "extract_placeholders ''Click now'' = []"
    by code_simp+
  have w: "warnings (validate_translation ''Click {button} now'' ''Click now'' ''Spanish'')
     = [PlaceholderMismatch [''{button}''] []]"
    by code_simp
  have s: "score (validate_translation ''Click {button} now'' ''Click now'' ''Spanish'')
       = 3602879701896397 / 4503599627370496"
    by code_simp
  have h1: "\<not> (\<forall>c \<in> set ''Click now''. is_space c)" by (simp add: is_space_def)
  have h2: "\<not> prefix ''[ERROR:'' ''Click now''" by simp
  have ne: "extract_placeholders ''Click {button} now'' \<noteq> extract_placeholders ''Click now''"
    by (simp add: p)
  note result =
    validate_translation_placeholders [OF h1 h2, of "''Click {button} now''" "''Spanish''"]
  from result have v: "is_valid (validate_translation ''Click {button} now'' ''Click now'' ''Spanish'')"
    by blast
  from result ne
  have le: "score (validate_translation ''Click {button} now'' ''Click now'' ''Spanish'')
       \<le> float_literal (8 / 10)"
    by blast
  from w s le v show ?thesis by blast
qed

text \<open>
  C2 (as stated) fails: \<open>{a}{b}\<close> and \<open>{b}{a}\<close> have the same set of placeholders, and
  the translation gets the placeholder-mismatch warning and loses 0.2 all the same.
\<close>

theorem validate_translation_placeholders_counterexample:
  "set (extract_placeholders ''{a}{b}'') = set (extract_placeholders ''{b}{a}'')
   \<and> warnings (validate_translation ''{a}{b}'' ''{b}{a}'' ''Spanish'')
       = [PlaceholderMismatch [''{a}'', ''{b}''] [''{b}'', ''{a}'']]
   \<and> score (validate_translation ''{a}{b}'' ''{b}{a}'' ''Spanish'')
       = fsub 1 (float_literal (2 / 10))"
proof -
  have p: "extract_placeholders ''{a}{b}'' = [''{a}'', ''{b}'']"
    "extract_placeholders ''{b}{a}'' = [''{b}'', ''{a}'']"
    by code_simp+
  have w: "warnings (validate_translation ''{a}{b}'' ''{b}{a}'' ''Spanish'')
       = [PlaceholderMismatch [''{a}'', ''{b}''] [''{b}'', ''{a}'']]"
    by code_simp
  have s: "score (validate_translation ''{a}{b}'' ''{b}{a}'' ''Spanish'')
       = fsub 1 (float_literal (2 / 10))"
    by code_simp
  show ?thesis unfolding p w s by auto
qed

section \<open>Properties of the retries\<close>

lemma retry_loop_all_fail:
  assumes "\<forall>i < n - k. \<exists>e. backend (api_calls st + i) prompt = ApiError e"
  shows "prefix ''[ERROR:'' (fst (retry_loop backend [k..<n] (int n) cache_key prompt st))
    \<and> slept (snd (retry_loop backend [k..<n] (int n) cache_key prompt st))
        = slept st @ map (\<lambda>attempt. 2 ^ attempt) [k..<n - 1]
    \<and> api_calls (snd (retry_loop backend [k..<n] (int n) cache_key prompt st))
        = api_calls st + (n - k)
    \<and> translation_cache (snd (retry_loop backend [k..<n] (int n) cache_key prompt st))
        = translation_cache st"
  using assms
proof (induction "n - k" arbitrary: k st)
  case 0
  then have "[k..<n] = []" "[k..<n - 1] = []" by simp_all
  then show ?case using 0 by simp
next
  case (Suc d)
  then have kn: "k < n" by simp
  then have upt: "[k..<n] = k # [Suc k..<n]" by (rule upt_conv_Cons)
  from Suc.prems kn obtain e where e: "backend (api_calls st) prompt = ApiError e"
    by (metis add.right_neutral zero_less_diff)
  show ?case
  proof (cases "int k = int n - 1")
    case True
    then have "[k..<n - 1] = []" "n - k = 1" using kn by simp_all
    then show ?thesis using True by (simp add: upt e)
  next
    case False
    then have k1: "k < n - 1" using kn by linarith
    define st' where "st' = st\<lparr>api_calls := api_calls st + 1, slept := slept st @ [2 ^ k]\<rparr>"
    have d: "d = n - Suc k" using Suc.hyps(2) by simp
    have fails: "\<forall>i < n - Suc k. \<exists>e. backend (api_calls st' + i) prompt = ApiError e"
    proof (intro allI impI)
      fix i assume "i < n - Suc k"
      then have "Suc i < n - k" by simp
      with Suc.prems obtain e' where "backend (api_calls st + Suc i) prompt = ApiError e'"
        by blast
      then show "\<exists>e. backend (api_calls st' + i) prompt = ApiError e"
        by (simp add: st'_def)
    qed
    have step: "retry_loop backend [k..<n] (int n) cache_key prompt st
                = retry_loop backend [Suc k..<n] (int n) cache_key prompt st'"
      using False by (simp add: upt e st'_def)
    have "[k..<n - 1] = k # [Suc k..<n - 1]" using k1 by (rule upt_conv_Cons)
    then show ?thesis
      using Suc.hyps(1) [OF d fails] kn by (simp add: step st'_def)
  qed
qed

lemma range_3: "[0..<3] = [0, 1, Suc (Suc 0)]"
  by (simp add: upt_rec)

text \<open>
  C5. With a client configured and the text not in the cache: when every one of the
  \<open>max_retries\<close> calls fails, \<open>translate\<close> returns a string that starts with \<open>[ERROR:\<close>,
  after sleeping 1, 2, 4, ... seconds between the attempts (none after the last one),
  and leaves the cache as it was; when the first two calls fail and the third succeeds,
  with three attempts allowed, it returns the content of the answer, stripped and
  without its surrounding quotes, after sleeping 1 and 2 seconds, and the cache holds
  this result under the key of the request.
\<close>

theorem translate_retry:
  "(client st = Some backend
    \<and> translation_cache st (get_cache_key text target_language style context) = None
    \<and> (\<forall>i < nat max_retries. \<exists>e.
          backend (api_calls st + i)
            (build_translation_prompt text target_language style context) = ApiError e)
    \<longrightarrow> prefix ''[ERROR:'' (fst (translate st text target_language style context max_retries))
      \<and> slept (snd (translate st text target_language style context max_retries))
          = slept st @ map (\<lambda>attempt. 2 ^ attempt) [0..<nat max_retries - 1]
      \<and> api_calls (snd (translate st text target_language style context max_retries))
          = api_calls st + nat max_retries
      \<and> translation_cache (snd (translate st text target_language style context max_retries))
          = translation_cache st)
   \<and> (client st = Some backend
    \<and> translation_cache st (get_cache_key text target_language style context) = None
    \<and> backend (api_calls st)
         (build_translation_prompt text target_language style context) = ApiError e1
    \<and> backend (api_calls st + 1)
         (build_translation_prompt text target_language style context) = ApiError e2
    \<and> backend (api_calls st + 2)
         (build_translation_prompt text target_language style context) = ApiContent content
    \<longrightarrow> translate st text target_language style context 3 =
          (unquote (strip content),
           st\<lparr> api_calls := api_calls st + 3,
              slept := slept st @ [1, 2],
              translation_cache :=
                (translation_cache st)
                  (get_cache_key text target_language style context
                     \<mapsto> unquote (strip content)) \<rparr>))"
proof -
  have all_fail: "prefix ''[ERROR:'' (fst (translate st text target_language style context max_retries))
      \<and> slept (snd (translate st text target_language style context max_retries))
          = slept st @ map (\<lambda>attempt. 2 ^ attempt) [0..<nat max_retries - 1]
      \<and> api_calls (snd (translate st text target_language style context max_retries))
          = api_calls st + nat max_retries
      \<and> translation_cache (snd (translate st text target_language style context max_retries))
          = translation_cache st"
    if h: "client st = Some backend
    \<and> translation_cache st (get_cache_key text target_language style context) = None
    \<and> (\<forall>i < nat max_retries. \<exists>e.
          backend (api_calls st + i)
            (build_translation_prompt text target_language style context) = ApiError e)"
  proof -
    have run: "translate st text target_language style context max_retries
          = retry_loop backend [0..<nat max_retries] max_retries
              (get_cache_key text target_language style context)
              (build_translation_prompt text target_language style context) st"
      using h by (simp add: translate_def)
    show ?thesis
    proof (cases "max_retries \<le> 0")
      case True
      then show ?thesis by (simp add: run)
    next
      case False
      then have m: "int (nat max_retries) = max_retries" by simp
      have "\<forall>i < nat max_retries - 0. \<exists>e.
            backend (api_calls st + i)
              (build_translation_prompt text target_language style context) = ApiError e"
        using h by simp
      from retry_loop_all_fail
        [where n = "nat max_retries" and k = 0 and backend = backend and st = st
           and prompt = "build_translation_prompt text target_language style context"
           and cache_key = "get_cache_key text target_language style context", OF this]
      show ?thesis unfolding run m by simp
    qed
  qed
  have third: "translate st text target_language style context 3 =
          (unquote (strip content),
           st\<lparr> api_calls := api_calls st + 3,
              slept := slept st @ [1, 2],
              translation_cache :=
                (translation_cache st)
                  (get_cache_key text target_language style context
                     \<mapsto> unquote (strip content)) \<rparr>)"
    if h: "client st = Some backend
    \<and> translation_cache st (get_cache_key text target_language style context) = None
    \<and> backend (api_calls st)
         (build_translation_prompt text target_language style context) = ApiError e1
    \<and> backend (api_calls st + 1)
         (build_translation_prompt text target_language style context) = ApiError e2
    \<and> backend (api_calls st + 2)
         (build_translation_prompt text target_language style context) = ApiContent content"
  proof -
    show ?thesis using h by (simp add: translate_def range_3 Let_def)
  qed
  show ?thesis using all_fail third by blast
qed
theorem translate_retry_witness:
  "prefix ''[ERROR:''
     (fst (translate
        \<lparr> client = Some (\<lambda>n p. if n < 2 then ApiError ''timeout''
                                   else ApiContent '' 'Pagar ahora' ''),
          translation_cache = Map.empty, api_calls = 0, slept = [] \<rparr>
        ''Pay now'' ''Spanish'' ''formal'' '''' 2))
   \<and> slept (snd (translate
        \<lparr> client = Some (\<lambda>n p. if n < 2 then ApiError ''timeout''
                                   else ApiContent '' 'Pagar ahora' ''),
          translation_cache = Map.empty, api_calls = 0, slept = [] \<rparr>
        ''Pay now'' ''Spanish'' ''formal'' '''' 2)) = [1]
   \<and> translate
        \<lparr> client = Some (\<lambda>n p. if n < 2 then ApiError ''timeout''
                                   else ApiContent '' 'Pagar ahora' ''),
          translation_cache = Map.empty, api_calls = 0, slept = [] \<rparr>
        ''Pay now'' ''Spanish'' ''formal'' '''' 3
      = (''Pagar ahora'',
         \<lparr> client = Some (\<lambda>n p. if n < 2 then ApiError ''timeout''
                                    else ApiContent '' 'Pagar ahora' ''),
           translation_cache =
             [get_cache_key ''Pay now'' ''Spanish'' ''formal'' '''' \<mapsto> ''Pagar ahora''],
           api_calls = 3, slept = [1, 2] \<rparr>)"
proof -
  have u: "unquote (strip '' 'Pagar ahora' '') = ''Pagar ahora''"
    by code_simp
  have r: "[0..<Suc 0] = [0]" by simp
  show ?thesis
    using translate_retry
      [of "\<lparr> client = Some (\<lambda>n p. if n < 2 then ApiError ''timeout''
                                      else ApiContent '' 'Pagar ahora' ''),
             translation_cache = Map.empty, api_calls = 0, slept = [] \<rparr>"
          "\<lambda>n p. if n < 2 then ApiError ''timeout'' else ApiContent '' 'Pagar ahora' ''"
          "''Pay now''" "''Spanish''" "''formal''" "''''" 2
          "''timeout''" "''timeout''" "'' 'Pagar ahora' ''"]
    by (simp add: u r)
qed

section \<open>Properties of the batch\<close>

lemma batch_loop_acc:
  "batch_loop st lang style total_n cb items results progress =
     (case batch_loop st lang style total_n cb items [] [] of
        (rs, ps, st') \<Rightarrow> (results @ rs, progress @ ps, st'))"
proof (induction items arbitrary: st results progress)
  case Nil
  show ?case by simp
next
  case (Cons item items)
  obtain i tx ctx where item: "item = (i, tx, ctx)" by (cases item)
  obtain tr st1 where tr: "translate st tx lang style ctx 3 = (tr, st1)"
    by (cases "translate st tx lang style ctx 3")
  define p where "p = (if cb then [(i + 1, total_n, tx, tr)] else [])"
  have p1: "(if cb then progress @ [(i + 1, total_n, tx, tr)] else progress) = progress @ p"
    and p2: "(if cb then [] @ [(i + 1, total_n, tx, tr)] else []) = p"
    by (simp_all add: p_def)
  have lhs: "batch_loop st lang style total_n cb (item # items) results progress
        = batch_loop st1 lang style total_n cb items (results @ [tr]) (progress @ p)"
    by (simp only: item batch_loop.simps tr prod.case p1)
  have rhs: "batch_loop st lang style total_n cb (item # items) [] []
        = batch_loop st1 lang style total_n cb items ([] @ [tr]) p"
    by (simp only: item batch_loop.simps tr prod.case p2)
  show ?case
    unfolding lhs rhs
    by (subst Cons.IH, subst (2) Cons.IH) (simp split: prod.splits)
qed

lemma batch_loop_Cons:
  "batch_loop st lang style total_n cb ((i, text, ctx) # items) [] [] =
     (case translate st text lang style ctx 3 of
        (tr, st1) \<Rightarrow>
          (case batch_loop st1 lang style total_n cb items [] [] of
             (rs, ps, st') \<Rightarrow>
               (tr # rs, (if cb then [(i + 1, total_n, text, tr)] else []) @ ps, st')))"
proof -
  obtain tr st1 where tr: "translate st text lang style ctx 3 = (tr, st1)"
    by (cases "translate st text lang style ctx 3")
  have "batch_loop st lang style total_n cb ((i, text, ctx) # items) [] []
        = batch_loop st1 lang style total_n cb items ([] @ [tr])
            (if cb then [] @ [(i + 1, total_n, text, tr)] else [])"
    by (simp only: batch_loop.simps tr prod.case)
  also have "\<dots> = (case batch_loop st1 lang style total_n cb items [] [] of
             (rs, ps, st') \<Rightarrow>
               (tr # rs, (if cb then [(i + 1, total_n, text, tr)] else []) @ ps, st'))"
    by (subst batch_loop_acc) (simp split: prod.splits)
  finally show ?thesis by (simp only: tr prod.case)
qed

lemma batch_loop_results:
  assumes "batch_loop st lang style total_n cb items [] [] = (rs, ps, st')"
  shows "length rs = length items
    \<and> (\<forall>j < length items.
          rs ! j = fst (translate (state_after st lang style (map snd items) j)
                          (fst (snd (items ! j))) lang style (snd (snd (items ! j))) 3))
    \<and> st' = state_after st lang style (map snd items) (length items)
    \<and> ps = (if cb
             then map (\<lambda>j. (fst (items ! j) + 1, total_n, fst (snd (items ! j)), rs ! j))
                    [0..<length items]
             else [])"
  using assms
proof (induction items arbitrary: st rs ps st')
  case Nil
  then show ?case by simp
next
  case (Cons item items)
  obtain i tx ctx where item: "item = (i, tx, ctx)" by (cases item)
  obtain tr st1 where tr: "translate st tx lang style ctx 3 = (tr, st1)"
    by (cases "translate st tx lang style ctx 3")
  obtain rs1 ps1 st2 where rest: "batch_loop st1 lang style total_n cb items [] [] = (rs1, ps1, st2)"
    by (cases "batch_loop st1 lang style total_n cb items [] []")
  from Cons.prems
  have "(tr # rs1, (if cb then [(i + 1, total_n, tx, tr)] else []) @ ps1, st2) = (rs, ps, st')"
    by (simp only: item batch_loop_Cons tr rest prod.case)
  then have rs: "rs = tr # rs1"
    and ps: "ps = (if cb then [(i + 1, total_n, tx, tr)] else []) @ ps1"
    and st2: "st' = st2"
    by simp_all
  note IH = Cons.IH [OF rest]
  have step: "state_after st lang style (map snd (item # items)) (Suc k)
              = state_after st1 lang style (map snd items) k" for k
    by (simp add: item tr)
  have len: "length rs = length (item # items)" using IH by (simp add: rs)
  have each: "rs ! j
      = fst (translate (state_after st lang style (map snd (item # items)) j)
               (fst (snd ((item # items) ! j))) lang style
               (snd (snd ((item # items) ! j))) 3)"
    if "j < length (item # items)" for j
  proof (cases j)
    case 0
    show ?thesis unfolding 0 rs item by (simp add: tr)
  next
    case (Suc k)
    with that have "k < length items" by simp
    with IH have "rs1 ! k
      = fst (translate (state_after st1 lang style (map snd items) k)
               (fst (snd (items ! k))) lang style (snd (snd (items ! k))) 3)"
      by blast
    then show ?thesis unfolding Suc step rs by simp
  qed
  have final: "st' = state_after st lang style (map snd (item # items)) (length (item # items))"
  proof -
    have "state_after st lang style (map snd (item # items)) (length (item # items))
          = state_after st lang style (map snd (item # items)) (Suc (length items))"
      by simp
    also have "\<dots> = state_after st1 lang style (map snd items) (length items)"
      by (rule step)
    also have "\<dots> = st2" using IH by simp
    finally show ?thesis by (simp add: st2)
  qed
  have prog: "ps = (if cb
             then map (\<lambda>j. (fst ((item # items) ! j) + 1, total_n,
                            fst (snd ((item # items) ! j)), rs ! j))
                    [0..<length (item # items)]
             else [])"
  proof (cases cb)
    case False
    then show ?thesis using IH by (simp add: ps)
  next
    case True
    have "[0..<length (item # items)] = 0 # map Suc [0..<length items]"
      by (simp add: upt_conv_Cons map_Suc_upt del: upt_Suc)
    then show ?thesis using True IH by (simp add: ps rs item comp_def del: upt_Suc)
  qed
  show ?case using len each final prog by blast
qed

text \<open>
  C10. With a list of contexts shorter than the list of texts, \<open>translate_batch\<close> returns
  as many results as there are contexts, and the texts after them are dropped. With no
  list of contexts, or one as long as the texts, there is one result for every text, and
  the callback is called once for every text, in order, with the position counted from
  one, the number of texts, the text and its result. In every case the result at a
  position is what \<open>translate\<close> returns for the text and the context at that position,
  called with three attempts in the state that the translations before it have left,
  and the final state is the state after the last of them.
\<close>

theorem translate_batch_pairing:
  assumes "translate_batch st texts target_language style contexts progress_callback
           = (results, progress, st')"
  shows "(\<forall>cs. contexts = Some cs \<and> length cs < length texts \<longrightarrow>
            length results = length cs
            \<and> (\<forall>j < length cs.
                  results ! j =
                    fst (translate (state_after st target_language style (zip texts cs) j)
                           (texts ! j) target_language style (cs ! j) 3))
            \<and> st' = state_after st target_language style (zip texts cs) (length cs))
    \<and> (\<forall>cs. (contexts = None \<and> cs = replicate (length texts) [])
             \<or> (contexts = Some cs \<and> length cs = length texts) \<longrightarrow>
            length results = length texts
            \<and> (\<forall>j < length texts.
                  results ! j =
                    fst (translate (state_after st target_language style (zip texts cs) j)
                           (texts ! j) target_language style (cs ! j) 3))
            \<and> st' = state_after st target_language style (zip texts cs) (length texts)
            \<and> (progress_callback \<longrightarrow>
                  progress = map (\<lambda>j. (j + 1, length texts, texts ! j, results ! j))
                                 [0..<length texts]))"
proof -
  define ctxs where
    "ctxs = (case contexts of None \<Rightarrow> replicate (length texts) [] | Some cs \<Rightarrow> cs)"
  define items where "items = enumerate 0 (zip texts ctxs)"
  have run: "batch_loop st target_language style (length texts) progress_callback items [] []
             = (results, progress, st')"
    using assms by (simp add: translate_batch_def ctxs_def items_def Let_def)
  note facts = batch_loop_results [OF run]
  have pairs: "map snd items = zip texts ctxs"
    by (simp add: items_def)
  have len: "length items = min (length texts) (length ctxs)"
    by (simp add: items_def)
  have nth: "items ! j = (j, texts ! j, ctxs ! j)" if "j < length items" for j
    using that by (simp add: items_def nth_enumerate_eq)
  have res_len: "length results = min (length texts) (length ctxs)"
    using facts len by simp
  have each: "results ! j
      = fst (translate (state_after st target_language style (zip texts ctxs) j)
               (texts ! j) target_language style (ctxs ! j) 3)"
    if "j < length items" for j
  proof -
    from facts that have
      "results ! j = fst (translate (state_after st target_language style (map snd items) j)
                           (fst (snd (items ! j))) target_language style
                           (snd (snd (items ! j))) 3)"
      by blast
    then show ?thesis by (simp add: nth [OF that] pairs)
  qed
  have final: "st' = state_after st target_language style (zip texts ctxs) (length items)"
    using facts by (simp add: pairs)
  have prog: "progress = map (\<lambda>j. (j + 1, length texts, texts ! j, results ! j)) [0..<length items]"
    if progress_callback
  proof -
    have "progress = map (\<lambda>j. (fst (items ! j) + 1, length texts, fst (snd (items ! j)),
                                results ! j)) [0..<length items]"
      using facts that by simp
    also have "\<dots> = map (\<lambda>j. (j + 1, length texts, texts ! j, results ! j)) [0..<length items]"
      by (rule map_cong) (simp_all add: nth)
    finally show ?thesis .
  qed
  have short: "length results = length cs
      \<and> (\<forall>j < length cs.
            results ! j =
              fst (translate (state_after st target_language style (zip texts cs) j)
                     (texts ! j) target_language style (cs ! j) 3))
      \<and> st' = state_after st target_language style (zip texts cs) (length cs)"
    if "contexts = Some cs \<and> length cs < length texts" for cs
  proof -
    from that have c: "ctxs = cs" by (simp add: ctxs_def)
    from that have l: "length items = length cs" by (simp add: len c)
    show ?thesis using res_len each final l that by (auto simp: c)
  qed
  have full: "length results = length texts
      \<and> (\<forall>j < length texts.
            results ! j =
              fst (translate (state_after st target_language style (zip texts cs) j)
                     (texts ! j) target_language style (cs ! j) 3))
      \<and> st' = state_after st target_language style (zip texts cs) (length texts)
      \<and> (progress_callback \<longrightarrow>
            progress = map (\<lambda>j. (j + 1, length texts, texts ! j, results ! j))
                           [0..<length texts])"
    if "(contexts = None \<and> cs = replicate (length texts) [])
        \<or> (contexts = Some cs \<and> length cs = length texts)" for cs
  proof -
    from that have c: "ctxs = cs" by (auto simp: ctxs_def)
    from that have l: "length cs = length texts" by auto
    then have li: "length items = length texts" by (simp add: len c)
    show ?thesis using res_len each final prog l li by (auto simp: c)
  qed
  show ?thesis using short full by blast
qed

theorem translate_batch_pairing_witness:
  "translate_batch
      \<lparr> client = None, translation_cache = Map.empty, api_calls = 0, slept = [] \<rparr>
      [''a'', ''b'', ''c''] ''French'' ''chatbot'' (Some [''x'', ''y'']) True
     = ([''[BOT] a [FRENCH]'', ''[BOT] b [FRENCH]''],
        [(1, 3, ''a'', ''[BOT] a [FRENCH]''), (2, 3, ''b'', ''[BOT] b [FRENCH]'')],
        \<lparr> client = None, translation_cache = Map.empty, api_calls = 0, slept = [] \<rparr>)
   \<and> translate_batch
      \<lparr> client = None, translation_cache = Map.empty, api_calls = 0, slept = [] \<rparr>
      [''a'', ''b''] ''French'' ''chatbot'' None True
     = ([''[BOT] a [FRENCH]'', ''[BOT] b [FRENCH]''],
        [(1, 2, ''a'', ''[BOT] a [FRENCH]''), (2, 2, ''b'', ''[BOT] b [FRENCH]'')],
        \<lparr> client = None, translation_cache = Map.empty, api_calls = 0, slept = [] \<rparr>)
   \<and> [''[BOT] a [FRENCH]'', ''[BOT] b [FRENCH]''] ! 1
     = fst (translate
         (state_after
            \<lparr> client = None, translation_cache = Map.empty, api_calls = 0, slept = [] \<rparr>
            ''French'' ''chatbot'' (zip [''a'', ''b'', ''c''] [''x'', ''y'']) 1)
         ([''a'', ''b'', ''c''] ! 1) ''French'' ''chatbot'' ([''x'', ''y''] ! 1) 3)"
proof -
  have m: "mock_translate ''a'' ''French'' ''chatbot'' = ''[BOT] a [FRENCH]''"
    "mock_translate ''b'' ''French'' ''chatbot'' = ''[BOT] b [FRENCH]''"
    by code_simp+
  have short: "translate_batch
      \<lparr> client = None, translation_cache = Map.empty, api_calls = 0, slept = [] \<rparr>
      [''a'', ''b'', ''c''] ''French'' ''chatbot'' (Some [''x'', ''y'']) True
     = ([''[BOT] a [FRENCH]'', ''[BOT] b [FRENCH]''],
        [(1, 3, ''a'', ''[BOT] a [FRENCH]''), (2, 3, ''b'', ''[BOT] b [FRENCH]'')],
        \<lparr> client = None, translation_cache = Map.empty, api_calls = 0, slept = [] \<rparr>)"
    by (simp add: translate_batch_def enumerate_eq_zip upt_rec translate_def m)
  have full: "translate_batch
      \<lparr> client = None, translation_cache = Map.empty, api_calls = 0, slept = [] \<rparr>
      [''a'', ''b''] ''French'' ''chatbot'' None True
     = ([''[BOT] a [FRENCH]'', ''[BOT] b [FRENCH]''],
        [(1, 2, ''a'', ''[BOT] a [FRENCH]''), (2, 2, ''b'', ''[BOT] b [FRENCH]'')],
        \<lparr> client = None, translation_cache = Map.empty, api_calls = 0, slept = [] \<rparr>)"
    by (simp add: translate_batch_def enumerate_eq_zip upt_rec translate_def m)
  have shorter: "Some [''x'', ''y''] = Some [''x'', ''y'']
      \<and> length [''x'', ''y''] < length [''a'', ''b'', ''c'']"
    by simp
  have second: "1 < length [''x'', ''y'']"
    by simp
  have paired: "[''[BOT] a [FRENCH]'', ''[BOT] b [FRENCH]''] ! 1
     = fst (translate
         (state_after
            \<lparr> client = None, translation_cache = Map.empty, api_calls = 0, slept = [] \<rparr>
            ''French'' ''chatbot'' (zip [''a'', ''b'', ''c''] [''x'', ''y'']) 1)
         ([''a'', ''b'', ''c''] ! 1) ''French'' ''chatbot'' ([''x'', ''y''] ! 1) 3)"
    using translate_batch_pairing [OF short, THEN conjunct1, THEN spec, THEN mp, OF shorter,
        THEN conjunct2, THEN conjunct1, THEN spec, THEN mp, OF second] .
  from short full paired show ?thesis by (intro conjI)
qed

end
